theory Spec2Isabelle
  imports Complex_Main
begin

section \<open>Numbers, strings and the imported helpers\<close>

text \<open>
  A JavaScript number as \<open>profiler.ts\<close> sees it: the only distinctions the code draws are
  \<open>isNaN\<close> and \<open>isFinite\<close>, so a number is a finite value, NaN or one of the two
  infinities. Elements of an \<open>Int32Array\<close> or \<open>Uint8Array\<close> are finite numbers. The values
  read back for a tensor are a sequence of numbers; the byte arrays of a string tensor are
  not modelled.
\<close>

datatype Jsnum = Finite real | NaN | PosInfinity | NegInfinity

fun isNaN :: "Jsnum \<Rightarrow> bool" where
  "isNaN NaN = True"
| "isNaN _ = False"

fun isFinite :: "Jsnum \<Rightarrow> bool" where
  "isFinite (Finite x) = True"
| "isFinite _ = False"

type_synonym BackendValues = "Jsnum list"

text \<open>A data type is a string at run time: \<open>'float32'\<close>, \<open>'int32'\<close>, \<open>'bool'\<close>, ...\<close>

type_synonym DataType = string

text \<open>
  What \<open>profiler.ts\<close> takes from outside the file. The rendering of a finite double in a
  template literal belongs to the language runtime; \<open>util.rightPad\<close> and
  \<open>sizeFromShape\<close> are imported from \<open>./util\<close>. All three are parameters of the model.
\<close>

record runtime =
  finiteToString :: "real \<Rightarrow> string"
  rightPad :: "string \<Rightarrow> nat \<Rightarrow> string"
  sizeFromShape :: "nat list \<Rightarrow> nat"

text \<open>\<open>`${num}`\<close> for a number.\<close>

fun Number_toString :: "runtime \<Rightarrow> Jsnum \<Rightarrow> string" where
  "Number_toString rt (Finite x) = finiteToString rt x"
| "Number_toString rt NaN = ''NaN''"
| "Number_toString rt PosInfinity = ''Infinity''"
| "Number_toString rt NegInfinity = ''-Infinity''"

text \<open>
  \<open>`${n}`\<close> for a non-negative integer (an array length, a dimension, an element count):
  its decimal digits. JavaScript prints integers this way below \<open>10^21\<close>.
\<close>

definition digit :: "nat \<Rightarrow> char" where
  "digit d = ''0123456789'' ! d"

function nat_toString :: "nat \<Rightarrow> string" where
  "nat_toString n = (if n < 10 then [digit n] else nat_toString (n div 10) @ [digit (n mod 10)])"
  by pat_completeness auto
termination
  by (relation "measure (\<lambda>n. n)") auto

text \<open>\<open>Array.prototype.join\<close>, and \<open>Array.prototype.toString\<close> of a shape (join with a comma).\<close>

fun join :: "string \<Rightarrow> string list \<Rightarrow> string" where
  "join sep [] = []"
| "join sep [x] = x"
| "join sep (x # y # ys) = x @ sep @ join sep (y # ys)"

definition shape_toString :: "nat list \<Rightarrow> string" where
  "shape_toString shp = join '','' (map nat_toString shp)"

section \<open>The host: console and instrumentation\<close>

text \<open>
  The console as a log of calls, oldest first: the message of each \<open>console.warn\<close> and the
  argument list of each \<open>console.log\<close>. \<open>elementReads\<close> counts the reads \<open>vals[i]\<close>
  the validation loop performs; it is there to state what the loop scans.
\<close>

record host =
  warnings :: "string list"
  logs :: "string list list"
  elementReads :: nat

definition console_warn :: "string \<Rightarrow> host \<Rightarrow> host" where
  "console_warn msg h = h\<lparr>warnings := warnings h @ [msg]\<rparr>"

definition console_log :: "string list \<Rightarrow> host \<Rightarrow> host" where
  "console_log args h = h\<lparr>logs := logs h @ [args]\<rparr>"

section \<open>checkComputationForErrors\<close>

text \<open>The message \<open>`Found ${num} in the result of '${kernelName}'`\<close>.\<close>

definition found_message :: "runtime \<Rightarrow> Jsnum \<Rightarrow> string \<Rightarrow> string" where
  "found_message rt num kernelName =
     ''Found '' @ Number_toString rt num @ '' in the result of '' @ [CHR 0x27] @ kernelName @ [CHR 0x27]"

text \<open>The loop \<open>for (let i = 0; i < vals.length; i++)\<close>, entered at index \<open>i\<close>. On a hit the
  code warns and returns true (the comment there still speaks of throwing; nothing is
  thrown).\<close>

function scanFrom :: "runtime \<Rightarrow> nat \<Rightarrow> BackendValues \<Rightarrow> string \<Rightarrow> host \<Rightarrow> bool \<times> host" where
  "scanFrom rt i vals kernelName h =
     (if i < length vals then
        (if isNaN (vals ! i) \<or> \<not> isFinite (vals ! i) then
           (True, console_warn (found_message rt (vals ! i) kernelName)
                    (h\<lparr>elementReads := Suc (elementReads h)\<rparr>))
         else scanFrom rt (Suc i) vals kernelName (h\<lparr>elementReads := Suc (elementReads h)\<rparr>))
      else (False, h))"
  by pat_completeness auto
termination
  by (relation "measure (\<lambda>(rt, i, vals, kernelName, h). length vals - i)") auto

definition checkComputationForErrors ::
  "runtime \<Rightarrow> BackendValues \<Rightarrow> DataType \<Rightarrow> string \<Rightarrow> host \<Rightarrow> bool \<times> host" where
  "checkComputationForErrors rt vals dtype kernelName h =
     (if dtype \<noteq> ''float32'' then (False, h) else scanFrom rt 0 vals kernelName h)"

text \<open>A value the validation reports: NaN or not finite.\<close>

definition offending :: "Jsnum \<Rightarrow> bool" where
  "offending num = (isNaN num \<or> \<not> isFinite num)"

section \<open>Tensor descriptors\<close>

text \<open>
  A tensor descriptor: an opaque data handle, a shape (non-negative dimensions) and a data
  type. The inputs of a kernel are tensors, of which the logger reads the shape only; the
  mapping from input names to tensors is kept as a list of entries in the order in which
  \<open>for (const name in inputs)\<close> enumerates them.
\<close>

type_synonym DataId = nat

record TensorInfo =
  dataId :: DataId
  shape :: "nat list"
  dtype :: DataType

type_synonym NamedTensorMap = "(string \<times> TensorInfo) list"

text \<open>\<open>T extends TensorInfo|TensorInfo[]\<close>: what a compute closure produces.\<close>

datatype KernelResult = Single TensorInfo | Many "TensorInfo list"

section \<open>Logger\<close>

text \<open>An optional string inside a template literal: \<open>undefined\<close> prints as such.\<close>

fun template_string :: "string option \<Rightarrow> string" where
  "template_string None = ''undefined''"
| "template_string (Some str) = str"

text \<open>The body of the loop over the inputs: what one input adds to the description.\<close>

definition inputDescription :: "string \<Rightarrow> TensorInfo \<Rightarrow> string" where
  "inputDescription nm input =
     (let inputShape = shape input;
          inputRank = length inputShape
      in nm @ '': '' @ nat_toString inputRank @ ''D '' @
         (if inputRank > 0 then shape_toString inputShape else []) @ '' '')"

fun inputShapesDescription :: "NamedTensorMap \<Rightarrow> string \<Rightarrow> string" where
  "inputShapesDescription [] acc = acc"
| "inputShapesDescription ((nm, input) # rest) acc =
     inputShapesDescription rest (acc @ inputDescription nm input)"

definition logKernelProfile ::
  "runtime \<Rightarrow> string \<Rightarrow> TensorInfo \<Rightarrow> BackendValues \<Rightarrow> Jsnum \<Rightarrow> NamedTensorMap \<Rightarrow>
     string option \<Rightarrow> host \<Rightarrow> host" where
  "logKernelProfile rt nm res vals timeMs inputs extraInfo h =
     (let tm = rightPad rt (Number_toString rt timeMs @ ''ms'') 9;
          paddedName = rightPad rt nm 25;
          rank = length (shape res);
          sz = sizeFromShape rt (shape res);
          shp = rightPad rt (shape_toString (shape res)) 14;
          description = inputShapesDescription inputs []
      in console_log
           [''%c'' @ paddedName @ [CHR 0x09] @ ''%c'' @ tm @ [CHR 0x09] @
            ''%c'' @ nat_toString rank @ ''D '' @ shp @ [CHR 0x09] @
            ''%c'' @ nat_toString sz @ [CHR 0x09] @
            ''%c'' @ description @ [CHR 0x09] @ ''%c'' @ template_string extraInfo,
            ''font-weight:bold'', ''color:red'', ''color:blue'', ''color: orange'',
            ''color: green'', ''color: steelblue'']
           h)"

text \<open>The columns of a printed line: its pieces between the occurrences of a separator,
  as \<open>String.prototype.split\<close> gives them.\<close>

fun splitOn :: "char \<Rightarrow> string \<Rightarrow> string list" where
  "splitOn c [] = [[]]"
| "splitOn c (x # xs) =
     (if x = c then [] # splitOn c xs
      else (case splitOn c xs of [] \<Rightarrow> [[x]] | y # ys \<Rightarrow> (x # y) # ys))"

section \<open>Profiler\<close>

text \<open>An exception value: one thrown by a collaborator, or the TypeError of reading a
  property of \<open>undefined\<close>.\<close>

datatype error = Thrown string | TypeError

text \<open>
  A logger is anything with a \<open>logKernelProfile\<close> method; an injected one may throw.
  The class \<open>Logger\<close> of this file is the default.
\<close>

type_synonym logger_fn =
  "string \<Rightarrow> TensorInfo \<Rightarrow> BackendValues \<Rightarrow> Jsnum \<Rightarrow> NamedTensorMap \<Rightarrow> string option \<Rightarrow>
     host \<Rightarrow> error option \<times> host"

definition Logger :: "runtime \<Rightarrow> logger_fn" where
  "Logger rt nm res vals timeMs inputs extraInfo h =
     (None, logKernelProfile rt nm res vals timeMs inputs extraInfo h)"

text \<open>
  Modelled from the spec: the \<open>BackendTimer\<close> interface (\<open>./backends/backend\<close>) is not part
  of the file. Section 4.2 asks that \<open>time(fn)\<close> invoke \<open>fn\<close> synchronously before it returns
  a deferred timing handle. A timer is described by how many times \<open>time\<close> calls the
  function it is given before returning (\<open>syncCalls\<close>, 1 for a timer that keeps the
  contract) and by whether \<open>time\<close> is an async function (\<open>asyncFn\<close>), in which case an
  exception of \<open>fn\<close> rejects the returned handle instead of leaving \<open>time\<close>.
\<close>

record BackendTimer =
  syncCalls :: nat
  asyncFn :: bool

text \<open>What the timing handle resolves to: \<open>getExtraProfileInfo\<close> is \<open>None\<close> when the
  accessor is absent, and otherwise the string the accessor returns.\<close>

record TimingInfo =
  kernelMs :: Jsnum
  getExtraProfileInfo :: "string option"

datatype 'a promise = Pending | Fulfilled 'a | Rejected error

text \<open>
  What one call of \<open>profileKernel\<close> does, as a trace, oldest event first. Outputs are
  numbered by their position in \<open>results\<close>. An event carries what the step worked on: the
  values a read gave, the result the timing handle gave, the reason of a rejection, the
  descriptor and the values a validation was called with and what it returned, the
  arguments the logger was called with.
\<close>

datatype event =
    TimeCalled
  | ComputeCalled
  | ReadCalled nat DataId
  | Returned
  | ReadFulfilled nat BackendValues
  | ReadRejected nat error
  | TimerFulfilled TimingInfo
  | TimerRejected error
  | Validated nat TensorInfo BackendValues bool
  | LoggerCalled nat string TensorInfo BackendValues Jsnum NamedTensorMap "string option"

fun isComputeCalled :: "event \<Rightarrow> bool" where
  "isComputeCalled ComputeCalled = True"
| "isComputeCalled _ = False"

definition computeCalls :: "event list \<Rightarrow> nat" where
  "computeCalls tr = length (filter isComputeCalled tr)"

text \<open>
  The synchronous part. \<open>frame\<close> holds the local variable \<open>result\<close> (\<open>None\<close> while it is
  \<open>undefined\<close>) and the trace so far. A compute closure is given by the outcome of each of
  its invocations, numbered from 0: it returns a value or throws.
\<close>

record frame =
  result :: "KernelResult option"
  events :: "event list"

type_synonym computeFn = "nat \<Rightarrow> error + KernelResult"

definition holdResultWrapperFn :: "computeFn \<Rightarrow> frame \<Rightarrow> error option \<times> frame" where
  "holdResultWrapperFn f fr =
     (case f (computeCalls (events fr)) of
        Inl e \<Rightarrow> (Some e, fr\<lparr>events := events fr @ [ComputeCalled]\<rparr>)
      | Inr v \<Rightarrow> (None, fr\<lparr>events := events fr @ [ComputeCalled], result := Some v\<rparr>))"

fun invokeSync ::
  "nat \<Rightarrow> (frame \<Rightarrow> error option \<times> frame) \<Rightarrow> frame \<Rightarrow> error option \<times> frame" where
  "invokeSync 0 fn fr = (None, fr)"
| "invokeSync (Suc k) fn fr =
     (case fn fr of
        (Some e, fr1) \<Rightarrow> (Some e, fr1)
      | (None, fr1) \<Rightarrow> invokeSync k fn fr1)"

text \<open>Modelled from the spec: \<open>backendTimer.time(fn)\<close>, for a timer as described above.\<close>

definition time ::
  "BackendTimer \<Rightarrow> (frame \<Rightarrow> error option \<times> frame) \<Rightarrow> frame \<Rightarrow>
     (error + TimingInfo promise) \<times> frame" where
  "time timer fn fr =
     (case invokeSync (syncCalls timer) fn (fr\<lparr>events := events fr @ [TimeCalled]\<rparr>) of
        (None, fr1) \<Rightarrow> (Inr Pending, fr1)
      | (Some e, fr1) \<Rightarrow> if asyncFn timer then (Inr (Rejected e), fr1) else (Inl e, fr1))"

text \<open>\<open>Array.isArray(result) ? result : [result]\<close>; an element is \<open>None\<close> when it is
  \<open>undefined\<close>.\<close>

fun resultsOf :: "KernelResult option \<Rightarrow> TensorInfo option list" where
  "resultsOf None = [None]"
| "resultsOf (Some (Single r)) = [Some r]"
| "resultsOf (Some (Many rs)) = map Some rs"

text \<open>
  The state the continuations of one call work on. The closures capture \<open>kernelName\<close>,
  \<open>inputs\<close> and the timing handle; \<open>reads\<close> has one entry per iteration of \<open>forEach\<close>: the
  descriptor \<open>r\<close> and the promise \<open>dataReader(r.dataId)\<close> returned. \<open>timerThen\<close> are the
  callbacks registered on the pending timing handle, \<open>microtasks\<close> the queue of promise
  reactions that are ready to run, \<open>unhandled\<close> the reasons with which the promises returned
  by \<open>then\<close> were rejected, which nobody handles.
\<close>

datatype task =
    ReadReaction nat TensorInfo BackendValues
  | TimerReaction nat TensorInfo BackendValues TimingInfo

record kstate =
  kname :: string
  kinputs :: NamedTensorMap
  timerP :: "TimingInfo promise"
  reads :: "(TensorInfo \<times> BackendValues promise) list"
  timerThen :: "(nat \<times> TensorInfo \<times> BackendValues) list"
  microtasks :: "task list"
  trace :: "event list"
  console :: host
  unhandled :: "error list"

text \<open>The loop \<open>results.forEach(r => { this.dataReader(r.dataId).then(...) })\<close>. The data
  reader returns a promise; reading \<open>dataId\<close> of \<open>undefined\<close> throws.\<close>

fun forEach_results :: "TensorInfo option list \<Rightarrow> kstate \<Rightarrow> error option \<times> kstate" where
  "forEach_results [] s = (None, s)"
| "forEach_results (None # rs) s = (Some TypeError, s)"
| "forEach_results (Some r # rs) s =
     forEach_results rs
       (s\<lparr>reads := reads s @ [(r, Pending)],
          trace := trace s @ [ReadCalled (length (reads s)) (dataId r)]\<rparr>)"

record Profiler =
  backendTimer :: BackendTimer
  logger :: logger_fn

text \<open>The constructor: \<open>if (logger == null) this.logger = new Logger()\<close>. The data reader
  is not a field of the model: what its promises settle to arrives as actions, below.\<close>

definition Profiler_new :: "runtime \<Rightarrow> BackendTimer \<Rightarrow> logger_fn option \<Rightarrow> Profiler" where
  "Profiler_new rt timer lg =
     \<lparr>backendTimer = timer, logger = (case lg of None \<Rightarrow> Logger rt | Some l \<Rightarrow> l)\<rparr>"

text \<open>
  \<open>profileKernel\<close> up to its \<open>return\<close>: either an exception reaches the caller (with the trace
  up to there), or the caller gets \<open>result\<close> and the continuations are left behind.
\<close>

definition profileKernel ::
  "Profiler \<Rightarrow> string \<Rightarrow> NamedTensorMap \<Rightarrow> computeFn \<Rightarrow> host \<Rightarrow>
     (error \<times> event list) + (KernelResult option \<times> kstate)" where
  "profileKernel p kernelName inputs f h =
     (case time (backendTimer p) (holdResultWrapperFn f) \<lparr>result = None, events = []\<rparr> of
        (Inl e, fr) \<Rightarrow> Inl (e, events fr)
      | (Inr timer, fr) \<Rightarrow>
          (case forEach_results (resultsOf (result fr))
                  \<lparr>kname = kernelName, kinputs = inputs, timerP = timer, reads = [],
                   timerThen = [], microtasks = [], trace = events fr, console = h,
                   unhandled = []\<rparr> of
             (Some e, s) \<Rightarrow> Inl (e, trace s)
           | (None, s) \<Rightarrow> Inr (result fr, s\<lparr>trace := trace s @ [Returned]\<rparr>)))"

subsection \<open>After the return: promises settle, reactions run\<close>

text \<open>
  A promise settles once; settling it again changes nothing. Fulfilling the read of output
  \<open>i\<close> queues its reaction. A rejected read leaves the promise returned by \<open>then\<close>
  rejected, which nobody handles.
\<close>

definition fulfilRead :: "nat \<Rightarrow> BackendValues \<Rightarrow> kstate \<Rightarrow> kstate" where
  "fulfilRead i vals s =
     (if i < length (reads s) \<and> snd (reads s ! i) = Pending then
        s\<lparr>reads := (reads s)[i := (fst (reads s ! i), Fulfilled vals)],
          microtasks := microtasks s @ [ReadReaction i (fst (reads s ! i)) vals],
          trace := trace s @ [ReadFulfilled i vals]\<rparr>
      else s)"

definition rejectRead :: "nat \<Rightarrow> error \<Rightarrow> kstate \<Rightarrow> kstate" where
  "rejectRead i e s =
     (if i < length (reads s) \<and> snd (reads s ! i) = Pending then
        s\<lparr>reads := (reads s)[i := (fst (reads s ! i), Rejected e)],
          unhandled := unhandled s @ [e],
          trace := trace s @ [ReadRejected i e]\<rparr>
      else s)"

definition fulfilTimer :: "TimingInfo \<Rightarrow> kstate \<Rightarrow> kstate" where
  "fulfilTimer timing s =
     (if timerP s = Pending then
        s\<lparr>timerP := Fulfilled timing,
          microtasks := microtasks s @
            map (\<lambda>(i, r, vals). TimerReaction i r vals timing) (timerThen s),
          timerThen := [],
          trace := trace s @ [TimerFulfilled timing]\<rparr>
      else s)"

definition rejectTimer :: "error \<Rightarrow> kstate \<Rightarrow> kstate" where
  "rejectTimer e s =
     (if timerP s = Pending then
        s\<lparr>timerP := Rejected e,
          unhandled := unhandled s @ map (\<lambda>_. e) (timerThen s),
          timerThen := [],
          trace := trace s @ [TimerRejected e]\<rparr>
      else s)"

text \<open>The callback \<open>vals => { checkComputationForErrors(...); timer.then(...) }\<close> of
  output \<open>i\<close>.\<close>

definition readReaction :: "runtime \<Rightarrow> nat \<Rightarrow> TensorInfo \<Rightarrow> BackendValues \<Rightarrow> kstate \<Rightarrow> kstate" where
  "readReaction rt i r vals s =
     (case checkComputationForErrors rt vals (dtype r) (kname s) (console s) of
        (bad, h) \<Rightarrow>
          (case timerP s of
             Pending \<Rightarrow>
               s\<lparr>console := h, trace := trace s @ [Validated i r vals bad],
                 timerThen := timerThen s @ [(i, r, vals)]\<rparr>
           | Fulfilled timing \<Rightarrow>
               s\<lparr>console := h, trace := trace s @ [Validated i r vals bad],
                 microtasks := microtasks s @ [TimerReaction i r vals timing]\<rparr>
           | Rejected e \<Rightarrow>
               s\<lparr>console := h, trace := trace s @ [Validated i r vals bad],
                 unhandled := unhandled s @ [e]\<rparr>))"

text \<open>The callback \<open>timing => { ...; this.logger.logKernelProfile(...) }\<close> of output \<open>i\<close>.\<close>

definition timerReaction ::
  "Profiler \<Rightarrow> nat \<Rightarrow> TensorInfo \<Rightarrow> BackendValues \<Rightarrow> TimingInfo \<Rightarrow> kstate \<Rightarrow> kstate" where
  "timerReaction p i r vals timing s =
     (let extraInfo = (case getExtraProfileInfo timing of None \<Rightarrow> [] | Some info \<Rightarrow> info)
      in case logger p (kname s) r vals (kernelMs timing) (kinputs s) (Some extraInfo) (console s) of
           (None, h) \<Rightarrow>
             s\<lparr>console := h,
               trace := trace s @
                 [LoggerCalled i (kname s) r vals (kernelMs timing) (kinputs s) (Some extraInfo)]\<rparr>
         | (Some e, h) \<Rightarrow>
             s\<lparr>console := h,
               trace := trace s @
                 [LoggerCalled i (kname s) r vals (kernelMs timing) (kinputs s) (Some extraInfo)],
               unhandled := unhandled s @ [e]\<rparr>)"

definition runMicrotask :: "runtime \<Rightarrow> Profiler \<Rightarrow> kstate \<Rightarrow> kstate" where
  "runMicrotask rt p s =
     (case microtasks s of
        [] \<Rightarrow> s
      | ReadReaction i r vals # q \<Rightarrow> readReaction rt i r vals (s\<lparr>microtasks := q\<rparr>)
      | TimerReaction i r vals timing # q \<Rightarrow> timerReaction p i r vals timing (s\<lparr>microtasks := q\<rparr>))"

text \<open>
  What can happen after the return, in any order: a promise settles, or the first queued
  reaction runs. (The real event loop empties the queue before the next promise is settled
  from outside; the model allows every interleaving, that one included.)
\<close>

datatype action =
    FulfilRead nat BackendValues
  | RejectRead nat error
  | FulfilTimer TimingInfo
  | RejectTimer error
  | RunMicrotask

fun step :: "runtime \<Rightarrow> Profiler \<Rightarrow> action \<Rightarrow> kstate \<Rightarrow> kstate" where
  "step rt p (FulfilRead i vals) s = fulfilRead i vals s"
| "step rt p (RejectRead i e) s = rejectRead i e s"
| "step rt p (FulfilTimer timing) s = fulfilTimer timing s"
| "step rt p (RejectTimer e) s = rejectTimer e s"
| "step rt p RunMicrotask s = runMicrotask rt p s"

fun run :: "runtime \<Rightarrow> Profiler \<Rightarrow> action list \<Rightarrow> kstate \<Rightarrow> kstate" where
  "run rt p [] s = s"
| "run rt p (a # acts) s = run rt p acts (step rt p a s)"

section \<open>Reading a trace\<close>

text \<open>The descriptors of a result, in the order of \<open>results\<close>.\<close>

fun outputsOf :: "KernelResult \<Rightarrow> TensorInfo list" where
  "outputsOf (Single r) = [r]"
| "outputsOf (Many rs) = rs"

text \<open>The calls of the data reader that \<open>forEach\<close> makes for these descriptors.\<close>

definition readCalls :: "TensorInfo list \<Rightarrow> event list" where
  "readCalls rs = map (\<lambda>(i, r). ReadCalled i (dataId r)) (enumerate 0 rs)"



fun isLoggerCall :: "nat \<Rightarrow> event \<Rightarrow> bool" where
  "isLoggerCall i (LoggerCalled j nm r vals ms ins extra) = (j = i)"
| "isLoggerCall i _ = False"

definition loggerCalls :: "nat \<Rightarrow> event list \<Rightarrow> event list" where
  "loggerCalls i tr = filter (isLoggerCall i) tr"

text \<open>The events of the continuations, as opposed to those of the synchronous part.\<close>

fun isBackground :: "event \<Rightarrow> bool" where
  "isBackground TimeCalled = False"
| "isBackground ComputeCalled = False"
| "isBackground (ReadCalled i d) = False"
| "isBackground Returned = False"
| "isBackground _ = True"

text \<open>The state \<open>profileKernel\<close> leaves behind when the wrapper has run \<open>k\<close> times and the
  call returns: every read is pending, nothing is queued.\<close>

definition returned_state ::
  "string \<Rightarrow> NamedTensorMap \<Rightarrow> TimingInfo promise \<Rightarrow> nat \<Rightarrow> TensorInfo list \<Rightarrow> host \<Rightarrow> kstate" where
  "returned_state kernelName inputs timer k rs h =
     \<lparr>kname = kernelName, kinputs = inputs, timerP = timer,
      reads = map (\<lambda>r. (r, Pending)) rs, timerThen = [], microtasks = [],
      trace = TimeCalled # replicate k ComputeCalled @ readCalls rs @ [Returned],
      console = h, unhandled = []\<rparr>"

text \<open>The logger call the code makes for output \<open>i\<close> with descriptor \<open>r\<close>, once the read gave
  \<open>vals\<close> and the timing handle gave \<open>timing\<close>.\<close>

definition expectedLog ::
  "string \<Rightarrow> NamedTensorMap \<Rightarrow> nat \<Rightarrow> TensorInfo \<Rightarrow> BackendValues \<Rightarrow> TimingInfo \<Rightarrow> event" where
  "expectedLog kernelName inputs i r vals timing =
     LoggerCalled i kernelName r vals (kernelMs timing) inputs
       (Some (case getExtraProfileInfo timing of None \<Rightarrow> [] | Some info \<Rightarrow> info))"

subsection \<open>Invariants of the continuations\<close>

fun taskIndex :: "task \<Rightarrow> nat" where
  "taskIndex (ReadReaction i r vals) = i"
| "taskIndex (TimerReaction i r vals timing) = i"

definition tasksOf :: "nat \<Rightarrow> kstate \<Rightarrow> task list" where
  "tasksOf i s = filter (\<lambda>t. taskIndex t = i) (microtasks s)"

definition thensOf :: "nat \<Rightarrow> kstate \<Rightarrow> (nat \<times> TensorInfo \<times> BackendValues) list" where
  "thensOf i s = filter (\<lambda>(j, r, vals). j = i) (timerThen s)"

text \<open>Where output \<open>i\<close> stands: its read unsettled or rejected and nothing done; its read
  reaction queued; its callback waiting on the timing handle; dropped because the handle
  was rejected; its logging reaction queued; logged.\<close>

definition phase_inv :: "nat \<Rightarrow> kstate \<Rightarrow> bool" where
  "phase_inv i s =
     (\<exists>r.
        ((reads s ! i = (r, Pending) \<or> (\<exists>e. reads s ! i = (r, Rejected e))) \<and>
           tasksOf i s = [] \<and> thensOf i s = [] \<and> loggerCalls i (trace s) = [])
      \<or> (\<exists>vals. reads s ! i = (r, Fulfilled vals) \<and>
           ((tasksOf i s = [ReadReaction i r vals] \<and> thensOf i s = [] \<and>
               loggerCalls i (trace s) = [])
          \<or> (timerP s = Pending \<and> tasksOf i s = [] \<and> thensOf i s = [(i, r, vals)] \<and>
               loggerCalls i (trace s) = [])
          \<or> ((\<exists>e. timerP s = Rejected e) \<and> tasksOf i s = [] \<and> thensOf i s = [] \<and>
               loggerCalls i (trace s) = [])
          \<or> (\<exists>timing. timerP s = Fulfilled timing \<and> thensOf i s = [] \<and>
               tasksOf i s = [TimerReaction i r vals timing] \<and> loggerCalls i (trace s) = [])
          \<or> (\<exists>timing. timerP s = Fulfilled timing \<and> thensOf i s = [] \<and> tasksOf i s = [] \<and>
               loggerCalls i (trace s) = [expectedLog (kname s) (kinputs s) i r vals timing]))))"

text \<open>What the validation returns for a data type and values; it does not depend on the
  console.\<close>

definition verdict :: "DataType \<Rightarrow> BackendValues \<Rightarrow> bool" where
  "verdict dt vals = (dt = ''float32'' \<and> (\<exists>num\<in>set vals. offending num))"

text \<open>In a trace: the values \<open>vals\<close> of output \<open>i\<close> were validated, with the result the
  validation gives for them, and the read of output \<open>i\<close> had been fulfilled with these values
  before that.\<close>

definition validatedAfterRead :: "nat \<Rightarrow> TensorInfo \<Rightarrow> BackendValues \<Rightarrow> event list \<Rightarrow> bool" where
  "validatedAfterRead i r vals tr =
     (\<exists>pre post. tr = pre @ Validated i r vals (verdict (dtype r) vals) # post \<and>
        ReadFulfilled i vals \<in> set pre)"

text \<open>What must have happened before an event: a logger call for output \<open>i\<close> needs the
  timing handle fulfilled, with the time it passes on, and the values it passes on
  validated after their read.\<close>

fun mayFollow :: "event list \<Rightarrow> event \<Rightarrow> bool" where
  "mayFollow earlier (LoggerCalled i nm r vals ms ins extra) =
     ((\<exists>timing. TimerFulfilled timing \<in> set earlier \<and> ms = kernelMs timing) \<and>
      validatedAfterRead i r vals earlier)"
| "mayFollow earlier _ = True"

definition wellOrdered :: "event list \<Rightarrow> bool" where
  "wellOrdered tr = (\<forall>earlier e later. tr = earlier @ e # later \<longrightarrow> mayFollow earlier e)"

fun taskReady :: "event list \<Rightarrow> task \<Rightarrow> bool" where
  "taskReady tr (ReadReaction i r vals) = (ReadFulfilled i vals \<in> set tr)"
| "taskReady tr (TimerReaction i r vals timing) =
     (TimerFulfilled timing \<in> set tr \<and> validatedAfterRead i r vals tr)"

definition order_inv :: "kstate \<Rightarrow> bool" where
  "order_inv s =
     (wellOrdered (trace s) \<and>
      (\<forall>t\<in>set (microtasks s). taskReady (trace s) t) \<and>
      (\<forall>i r vals. (i, r, vals) \<in> set (timerThen s) \<longrightarrow>
         validatedAfterRead i r vals (trace s)) \<and>
      (\<forall>timing. timerP s = Fulfilled timing \<longrightarrow> TimerFulfilled timing \<in> set (trace s)))"

text \<open>One state comes after another: same captured names and descriptors, and a trace
  longer by events of the continuations only.\<close>

definition extends :: "kstate \<Rightarrow> kstate \<Rightarrow> bool" where
  "extends s s' =
     (kname s' = kname s \<and> kinputs s' = kinputs s \<and> map fst (reads s') = map fst (reads s) \<and>
      (\<exists>more. trace s' = trace s @ more \<and> (\<forall>e\<in>set more. isBackground e)))"

subsection \<open>What the events of a trace do\<close>

text \<open>
  What can be observed of the continuations: the console, the unhandled rejections, the
  state of the timing handle and how many callbacks wait on it. \<open>effect\<close> is what one event
  does to these: a validation runs \<open>checkComputationForErrors\<close> on the console and chains a
  callback on the timing handle; a logger call applies the logger to the console, and what
  it throws is an unhandled rejection; a rejection is unhandled, once for a read and once
  for each callback waiting on the timing handle. \<open>replay\<close> does this for a whole trace.
\<close>

record observed =
  ohost :: host
  orejections :: "error list"
  otimer :: "TimingInfo promise"
  owaiting :: nat

fun effect :: "runtime \<Rightarrow> Profiler \<Rightarrow> string \<Rightarrow> observed \<Rightarrow> event \<Rightarrow> observed" where
  "effect rt p kernelName ob (ReadRejected i e) = ob\<lparr>orejections := orejections ob @ [e]\<rparr>"
| "effect rt p kernelName ob (TimerFulfilled timing) =
     ob\<lparr>otimer := Fulfilled timing, owaiting := 0\<rparr>"
| "effect rt p kernelName ob (TimerRejected e) =
     ob\<lparr>orejections := orejections ob @ replicate (owaiting ob) e,
        otimer := Rejected e, owaiting := 0\<rparr>"
| "effect rt p kernelName ob (Validated i r vals bad) =
     (case otimer ob of
        Pending \<Rightarrow>
          ob\<lparr>ohost := snd (checkComputationForErrors rt vals (dtype r) kernelName (ohost ob)),
             owaiting := Suc (owaiting ob)\<rparr>
      | Fulfilled timing \<Rightarrow>
          ob\<lparr>ohost := snd (checkComputationForErrors rt vals (dtype r) kernelName (ohost ob))\<rparr>
      | Rejected e \<Rightarrow>
          ob\<lparr>ohost := snd (checkComputationForErrors rt vals (dtype r) kernelName (ohost ob)),
             orejections := orejections ob @ [e]\<rparr>)"
| "effect rt p kernelName ob (LoggerCalled i nm r vals ms ins extra) =
     (case logger p nm r vals ms ins extra (ohost ob) of
        (None, h) \<Rightarrow> ob\<lparr>ohost := h\<rparr>
      | (Some e, h) \<Rightarrow> ob\<lparr>ohost := h, orejections := orejections ob @ [e]\<rparr>)"
| "effect rt p kernelName ob _ = ob"

definition replay :: "runtime \<Rightarrow> Profiler \<Rightarrow> string \<Rightarrow> event list \<Rightarrow> observed \<Rightarrow> observed" where
  "replay rt p kernelName tr ob = foldl (effect rt p kernelName) ob tr"

text \<open>What is observed when \<open>profileKernel\<close> returns: the console as it was at the call, no
  unhandled rejection, nothing waiting on the timing handle.\<close>

definition at_return :: "host \<Rightarrow> TimingInfo promise \<Rightarrow> observed" where
  "at_return h timer = \<lparr>ohost = h, orejections = [], otimer = timer, owaiting = 0\<rparr>"

definition observe :: "kstate \<Rightarrow> observed" where
  "observe s =
     \<lparr>ohost = console s, orejections = unhandled s, otimer = timerP s,
      owaiting = length (timerThen s)\<rparr>"

text \<open>The state of a run is what replaying its trace gives.\<close>

definition replayed :: "runtime \<Rightarrow> Profiler \<Rightarrow> observed \<Rightarrow> kstate \<Rightarrow> bool" where
  "replayed rt p ob s = (observe s = replay rt p (kname s) (trace s) ob)"

text \<open>Every rejected read is an unhandled rejection.\<close>

definition rejections_unhandled :: "kstate \<Rightarrow> bool" where
  "rejections_unhandled s =
     (\<forall>i<length (reads s). \<forall>e. snd (reads s ! i) = Rejected e \<longrightarrow> e \<in> set (unhandled s))"

text \<open>Failures of the continuation of output \<open>i\<close> end as unhandled rejections: once the
  read reaction of output \<open>i\<close> has run, the reason of a rejected timing handle; once its
  logging reaction has run, what the logger throws when called with its arguments.\<close>

definition failure_inv :: "Profiler \<Rightarrow> nat \<Rightarrow> kstate \<Rightarrow> bool" where
  "failure_inv p i s =
     (\<forall>r vals. reads s ! i = (r, Fulfilled vals) \<and> tasksOf i s = [] \<longrightarrow>
        (\<forall>e. timerP s = Rejected e \<longrightarrow> e \<in> set (unhandled s)) \<and>
        (\<forall>timing e. timerP s = Fulfilled timing \<and>
           (\<forall>hc. fst (logger p (kname s) r vals (kernelMs timing) (kinputs s)
                       (Some (case getExtraProfileInfo timing of None \<Rightarrow> [] | Some info \<Rightarrow> info))
                       hc) = Some e) \<longrightarrow>
           e \<in> set (unhandled s)))"

section \<open>Sample data\<close>

text \<open>
  Modelled from the spec: \<open>util.rightPad\<close> and \<open>util.sizeFromShape\<close> are not part of the
  file. The spec has columns padded to a width and an element count derived from the shape;
  the samples pad with spaces behind the text and multiply the dimensions. The sample
  rendering of a finite double is right on non-negative integers. They serve the worked
  examples only; no theorem about the code depends on them.
\<close>

definition sample_rightPad :: "string \<Rightarrow> nat \<Rightarrow> string" where
  "sample_rightPad a n = (if n \<le> length a then a else a @ replicate (n - length a) CHR '' '')"

definition sample_sizeFromShape :: "nat list \<Rightarrow> nat" where
  "sample_sizeFromShape shp = foldl (*) 1 shp"

definition sample_runtime :: runtime where
  "sample_runtime =
     \<lparr>finiteToString = (\<lambda>x. nat_toString (nat \<lfloor>x\<rfloor>)),
      rightPad = sample_rightPad, sizeFromShape = sample_sizeFromShape\<rparr>"

definition sample_host :: host where
  "sample_host = \<lparr>warnings = [], logs = [], elementReads = 0\<rparr>"

definition tensor :: "nat \<Rightarrow> nat list \<Rightarrow> TensorInfo" where
  "tensor d shp = \<lparr>dataId = d, shape = shp, dtype = ''float32''\<rparr>"

text \<open>The kernel \<open>Add\<close> of the spec's example: two inputs and one output of shape \<open>[2,2]\<close>.\<close>

definition sample_inputs :: NamedTensorMap where
  "sample_inputs = [(''a'', tensor 1 [2, 2]), (''b'', tensor 2 [2, 2])]"

definition sample_output :: TensorInfo where
  "sample_output = tensor 3 [2, 2]"

definition sample_vals :: BackendValues where
  "sample_vals = [Finite 1, Finite 2, Finite 3, Finite 4]"

definition sample_compute :: computeFn where
  "sample_compute j = Inr (Single sample_output)"

definition failing_compute :: computeFn where
  "failing_compute j = Inl (Thrown ''kernel failed'')"

definition sample_timing :: TimingInfo where
  "sample_timing = \<lparr>kernelMs = Finite 5, getExtraProfileInfo = None\<rparr>"

text \<open>A timer that runs the function once; as a plain function, and as an async one.\<close>

definition plain_timer :: BackendTimer where
  "plain_timer = \<lparr>syncCalls = 1, asyncFn = False\<rparr>"

definition async_timer :: BackendTimer where
  "async_timer = \<lparr>syncCalls = 1, asyncFn = True\<rparr>"

definition sample_profiler :: Profiler where
  "sample_profiler = Profiler_new sample_runtime async_timer None"

definition plain_profiler :: Profiler where
  "plain_profiler = Profiler_new sample_runtime plain_timer None"

definition sample_state :: kstate where
  "sample_state = returned_state ''Add'' sample_inputs Pending 1 [sample_output] sample_host"

text \<open>Two runs after the sample call returned: the read and the timing handle are
  fulfilled and both reactions run; and the read is rejected while the handle is
  fulfilled.\<close>

definition sample_run :: kstate where
  "sample_run =
     run sample_runtime sample_profiler
       [FulfilRead 0 sample_vals, FulfilTimer sample_timing, RunMicrotask, RunMicrotask]
       sample_state"

definition rejected_run :: kstate where
  "rejected_run =
     run sample_runtime sample_profiler
       [RejectRead 0 (Thrown ''read failed''), FulfilTimer sample_timing]
       sample_state"

text \<open>A closure that returns when it is invoked the first time and throws when it is
  invoked again.\<close>

definition once_compute :: computeFn where
  "once_compute j = (if j = 0 then Inr (Single sample_output) else Inl (Thrown ''invoked again''))"

text \<open>A run in which the output holds a NaN.\<close>

definition nan_vals :: BackendValues where
  "nan_vals = [Finite 1, NaN, Finite 3, Finite 4]"

definition nan_run :: kstate where
  "nan_run =
     run sample_runtime sample_profiler
       [FulfilRead 0 nan_vals, RunMicrotask, FulfilTimer sample_timing, RunMicrotask]
       sample_state"

text \<open>A run in which the timing handle is rejected after the read reaction has run, and a
  run with a logger that throws.\<close>

definition timer_rejected_run :: kstate where
  "timer_rejected_run =
     run sample_runtime sample_profiler
       [FulfilRead 0 sample_vals, RunMicrotask, RejectTimer (Thrown ''timer failed'')]
       sample_state"

definition failing_logger :: logger_fn where
  "failing_logger nm res vals timeMs inputs extraInfo h = (Some (Thrown ''logger failed''), h)"

definition failing_logger_profiler :: Profiler where
  "failing_logger_profiler = Profiler_new sample_runtime async_timer (Some failing_logger)"

definition logger_failed_run :: kstate where
  "logger_failed_run =
     run sample_runtime failing_logger_profiler
       [FulfilRead 0 sample_vals, FulfilTimer sample_timing, RunMicrotask, RunMicrotask]
       sample_state"

section \<open>Validation: what checkComputationForErrors returns, warns and scans\<close>

declare scanFrom.simps [simp del]

lemma scanFrom_unfold:
  "scanFrom rt i vals kernelName h =
     (if i < length vals then
        (if offending (vals ! i) then
           (True, console_warn (found_message rt (vals ! i) kernelName)
                    (h\<lparr>elementReads := Suc (elementReads h)\<rparr>))
         else scanFrom rt (Suc i) vals kernelName (h\<lparr>elementReads := Suc (elementReads h)\<rparr>))
      else (False, h))"
  by (subst scanFrom.simps) (simp add: offending_def)

text \<open>The loop entered at \<open>i\<close> finds the first offending value at or after \<open>i\<close>, reading
  every element up to and including it; without one it reads to the end.\<close>

lemma scanFrom_spec:
  "scanFrom rt i vals kernelName h =
     (case List.find offending (drop i vals) of
        None \<Rightarrow> (False, h\<lparr>elementReads := elementReads h + (length vals - i)\<rparr>)
      | Some num \<Rightarrow>
          (True, console_warn (found_message rt num kernelName)
             (h\<lparr>elementReads := elementReads h +
                Suc (length (takeWhile (\<lambda>x. \<not> offending x) (drop i vals)))\<rparr>)))"
proof (induction rt i vals kernelName h rule: scanFrom.induct)
  case (1 rt i vals kernelName h)
  show ?case
  proof (cases "i < length vals")
    case False
    then show ?thesis by (subst scanFrom_unfold) simp
  next
    case True
    then have d: "drop i vals = vals ! i # drop (Suc i) vals"
      by (simp add: Cons_nth_drop_Suc)
    show ?thesis
    proof (cases "offending (vals ! i)")
      case True
      with \<open>i < length vals\<close> d show ?thesis
        by (subst scanFrom_unfold) simp
    next
      case False
      then have nb: "\<not> (isNaN (vals ! i) \<or> \<not> isFinite (vals ! i))"
        by (simp add: offending_def)
      from False \<open>i < length vals\<close> have "scanFrom rt i vals kernelName h =
         scanFrom rt (Suc i) vals kernelName (h\<lparr>elementReads := Suc (elementReads h)\<rparr>)"
        by (subst scanFrom_unfold) simp
      also note "1.IH"[OF \<open>i < length vals\<close> nb]
      finally show ?thesis using False d \<open>i < length vals\<close>
        by (simp split: option.splits)
    qed
  qed
qed

lemma find_offending_None:
  "(List.find offending vals = None) = (\<not> (\<exists>num\<in>set vals. offending num))"
  by (auto simp: find_None_iff)

lemma check_float32:
  "checkComputationForErrors rt vals ''float32'' kernelName h =
     (case List.find offending vals of
        None \<Rightarrow> (False, h\<lparr>elementReads := elementReads h + length vals\<rparr>)
      | Some num \<Rightarrow>
          (True, console_warn (found_message rt num kernelName)
             (h\<lparr>elementReads := elementReads h +
                Suc (length (takeWhile (\<lambda>x. \<not> offending x) vals))\<rparr>)))"
  by (simp add: checkComputationForErrors_def scanFrom_spec split: option.splits)

lemma check_first_hit:
  assumes "\<forall>x\<in>set good. \<not> offending x" and "offending bad"
  shows "checkComputationForErrors rt (good @ bad # rest) ''float32'' kernelName h =
     (True, h\<lparr>warnings := warnings h @ [found_message rt bad kernelName],
              elementReads := elementReads h + length good + 1\<rparr>)"
proof -
  from assms have f: "List.find offending (good @ bad # rest) = Some bad"
    by (induction good) auto
  from assms have t: "takeWhile (\<lambda>x. \<not> offending x) (good @ bad # rest) = good"
    by (induction good) auto
  show ?thesis
    by (simp add: check_float32 f t console_warn_def)
qed

lemma check_result:
  "fst (checkComputationForErrors rt vals ''float32'' kernelName h) =
     (\<exists>num\<in>set vals. offending num)"
proof (cases "List.find offending vals")
  case None
  then show ?thesis using find_offending_None[of vals] by (simp add: check_float32)
next
  case (Some a)
  then show ?thesis using find_offending_None[of vals] by (simp add: check_float32)
qed

text \<open>
  C2. \<open>checkComputationForErrors\<close> returns true exactly when the data type is
  \<open>float32\<close> and some value is NaN or not finite. For any other data type it returns false
  and leaves the host as it was: no warning, and no element of the values read.
\<close>

theorem checkComputationForErrors_iff:
  "fst (checkComputationForErrors rt vals dt kernelName h) =
     (dt = ''float32'' \<and> (\<exists>num\<in>set vals. isNaN num \<or> \<not> isFinite num))
   \<and> (dt \<noteq> ''float32'' \<longrightarrow>
        checkComputationForErrors rt vals dt kernelName h = (False, h))"
proof (cases "dt = ''float32''")
  case False
  then show ?thesis by (simp add: checkComputationForErrors_def)
next
  case True
  with check_result[of rt vals kernelName h] show ?thesis by (simp add: offending_def)
qed

theorem checkComputationForErrors_iff_witness:
  "fst (checkComputationForErrors sample_runtime [Finite 1, PosInfinity] ''float32'' ''Add''
          sample_host)
   \<and> ''int32'' \<noteq> ''float32''
   \<and> checkComputationForErrors sample_runtime [Finite 1, NaN] ''int32'' ''Add'' sample_host =
       (False, sample_host)"
  using checkComputationForErrors_iff[of sample_runtime "[Finite 1, PosInfinity]"
          "''float32''" "''Add''" sample_host]
        checkComputationForErrors_iff[of sample_runtime "[Finite 1, NaN]"
          "''int32''" "''Add''" sample_host]
  by simp

text \<open>
  C4. On \<open>float32\<close> values with an offending value, the call returns true and adds exactly
  one warning, built from the first offending value and the kernel name; it reads the
  values up to that one and no further, so nothing after it is examined or reported. On
  \<open>[1.0, NaN, 3.0]\<close> the one warning is \<open>Found NaN in the result of '<kernelName>'\<close>, after
  two reads.
\<close>

theorem checkComputationForErrors_one_warning:
  "((\<exists>num\<in>set vals. isNaN num \<or> \<not> isFinite num) \<longrightarrow>
     (\<exists>good bad rest. vals = good @ bad # rest \<and> (\<forall>x\<in>set good. \<not> offending x) \<and>
        offending bad \<and>
        checkComputationForErrors rt vals ''float32'' kernelName h =
          (True, h\<lparr>warnings := warnings h @
                      [''Found '' @ Number_toString rt bad @ '' in the result of '' @
                       [CHR 0x27] @ kernelName @ [CHR 0x27]],
                   elementReads := elementReads h + length good + 1\<rparr>)))
   \<and> checkComputationForErrors rt [Finite 1, NaN, Finite 3] ''float32'' kernelName h =
          (True, h\<lparr>warnings := warnings h @
                      [''Found NaN in the result of '' @ [CHR 0x27] @ kernelName @ [CHR 0x27]],
                   elementReads := elementReads h + 2\<rparr>)"
proof (intro conjI impI)
  assume "\<exists>num\<in>set vals. isNaN num \<or> \<not> isFinite num"
  then have "\<exists>num\<in>set vals. offending num" by (simp add: offending_def)
  then obtain good bad rest where v: "vals = good @ bad # rest"
    and g: "\<forall>x\<in>set good. \<not> offending x" and b: "offending bad"
    by (auto dest!: split_list_first_prop)
  from check_first_hit[OF g b, of rt rest kernelName h] v g b
  show "\<exists>good bad rest. vals = good @ bad # rest \<and> (\<forall>x\<in>set good. \<not> offending x) \<and>
        offending bad \<and>
        checkComputationForErrors rt vals ''float32'' kernelName h =
          (True, h\<lparr>warnings := warnings h @
                      [''Found '' @ Number_toString rt bad @ '' in the result of '' @
                       [CHR 0x27] @ kernelName @ [CHR 0x27]],
                   elementReads := elementReads h + length good + 1\<rparr>)"
    unfolding found_message_def by blast
next
  have g: "\<forall>x\<in>set [Finite 1]. \<not> offending x" by (simp add: offending_def)
  have b: "offending NaN" by (simp add: offending_def)
  from check_first_hit[OF g b, of rt "[Finite 3]" kernelName h]
  show "checkComputationForErrors rt [Finite 1, NaN, Finite 3] ''float32'' kernelName h =
          (True, h\<lparr>warnings := warnings h @
                      [''Found NaN in the result of '' @ [CHR 0x27] @ kernelName @ [CHR 0x27]],
                   elementReads := elementReads h + 2\<rparr>)"
    by (simp add: found_message_def)
qed

theorem checkComputationForErrors_one_warning_witness:
  "(\<exists>num\<in>set [Finite 1, NaN, NegInfinity]. isNaN num \<or> \<not> isFinite num)
   \<and> (\<exists>good bad rest. [Finite 1, NaN, NegInfinity] = good @ bad # rest \<and>
        (\<forall>x\<in>set good. \<not> offending x) \<and> offending bad \<and>
        checkComputationForErrors sample_runtime [Finite 1, NaN, NegInfinity] ''float32'' ''Add''
            sample_host =
          (True, sample_host\<lparr>warnings := warnings sample_host @
                      [''Found '' @ Number_toString sample_runtime bad @
                       '' in the result of '' @ [CHR 0x27] @ ''Add'' @ [CHR 0x27]],
                   elementReads := elementReads sample_host + length good + 1\<rparr>))
   \<and> checkComputationForErrors sample_runtime [Finite 1, NaN, Finite 3] ''float32'' ''Add''
        sample_host =
       (True, \<lparr>warnings = [''Found NaN in the result of '' @ [CHR 0x27] @ ''Add'' @ [CHR 0x27]],
               logs = [], elementReads = 2\<rparr>)"
proof -
  have ex: "\<exists>num\<in>set [Finite 1, NaN, NegInfinity]. isNaN num \<or> \<not> isFinite num"
    by simp
  note t = checkComputationForErrors_one_warning[of "[Finite 1, NaN, NegInfinity]"
      sample_runtime "''Add''" sample_host]
  from t ex have "\<exists>good bad rest. [Finite 1, NaN, NegInfinity] = good @ bad # rest \<and>
        (\<forall>x\<in>set good. \<not> offending x) \<and> offending bad \<and>
        checkComputationForErrors sample_runtime [Finite 1, NaN, NegInfinity] ''float32'' ''Add''
            sample_host =
          (True, sample_host\<lparr>warnings := warnings sample_host @
                      [''Found '' @ Number_toString sample_runtime bad @
                       '' in the result of '' @ [CHR 0x27] @ ''Add'' @ [CHR 0x27]],
                   elementReads := elementReads sample_host + length good + 1\<rparr>)"
    by blast
  moreover from t have "checkComputationForErrors sample_runtime [Finite 1, NaN, Finite 3]
        ''float32'' ''Add'' sample_host =
       (True, \<lparr>warnings = [''Found NaN in the result of '' @ [CHR 0x27] @ ''Add'' @ [CHR 0x27]],
               logs = [], elementReads = 2\<rparr>)"
    by (simp add: sample_host_def)
  ultimately show ?thesis using ex by blast
qed

section \<open>Logger: the line logKernelProfile prints\<close>



declare nat_toString.simps [simp del]




text \<open>The loop over the inputs appends one description per input, in enumeration order.\<close>

lemma inputShapesDescription_acc:
  "inputShapesDescription inputs acc =
     acc @ concat (map (\<lambda>(nm, input). inputDescription nm input) inputs)"
  by (induction inputs acc rule: inputShapesDescription.induct) simp_all

lemma splitOn_notin: "c \<notin> set a \<Longrightarrow> splitOn c a = [a]"
  by (induction a) auto

lemma splitOn_append: "c \<notin> set a \<Longrightarrow> splitOn c (a @ c # rest) = a # splitOn c rest"
  by (induction a) auto

lemma splitOn_six:
  assumes "\<forall>col\<in>set [c1, c2, c3, c4, c5, c6]. t \<notin> set col"
  shows "splitOn t (c1 @ [t] @ c2 @ [t] @ c3 @ [t] @ c4 @ [t] @ c5 @ [t] @ c6) =
           [c1, c2, c3, c4, c5, c6]"
  using assms by (simp add: splitOn_append splitOn_notin)

text \<open>
  C9. One call of \<open>logKernelProfile\<close> adds exactly one \<open>console.log\<close> call and nothing else.
  Its format string has six tab-separated columns, each opened by \<open>%c\<close>, in this order: the
  name padded to 25; the time followed by \<open>ms\<close>, padded to 9; the rank of the output, \<open>D\<close>, a
  space and the shape padded to 14; the element count; the descriptions of the inputs, each
  ending in a space; the extra-info string. The six style arguments follow. When no column
  contains a tab itself, splitting the format string at the tabs gives back these six
  columns. (The padding function and the element count are those imported from \<open>util\<close>.)
\<close>

theorem logKernelProfile_line:
  "logKernelProfile rt nm res vals timeMs inputs extraInfo h =
     h\<lparr>logs := logs h @
        [[''%c'' @ rightPad rt nm 25 @ [CHR 0x09] @
          ''%c'' @ rightPad rt (Number_toString rt timeMs @ ''ms'') 9 @ [CHR 0x09] @
          ''%c'' @ nat_toString (length (shape res)) @ ''D '' @
                  rightPad rt (shape_toString (shape res)) 14 @ [CHR 0x09] @
          ''%c'' @ nat_toString (sizeFromShape rt (shape res)) @ [CHR 0x09] @
          ''%c'' @ concat (map (\<lambda>(n, input). inputDescription n input) inputs) @ [CHR 0x09] @
          ''%c'' @ template_string extraInfo,
          ''font-weight:bold'', ''color:red'', ''color:blue'', ''color: orange'',
          ''color: green'', ''color: steelblue'']]\<rparr>
   \<and> ((\<forall>col\<in>set [rightPad rt nm 25,
                  rightPad rt (Number_toString rt timeMs @ ''ms'') 9,
                  nat_toString (length (shape res)) @ ''D '' @
                    rightPad rt (shape_toString (shape res)) 14,
                  nat_toString (sizeFromShape rt (shape res)),
                  concat (map (\<lambda>(n, input). inputDescription n input) inputs),
                  template_string extraInfo]. CHR 0x09 \<notin> set col) \<longrightarrow>
        splitOn (CHR 0x09)
          (hd (last (logs (logKernelProfile rt nm res vals timeMs inputs extraInfo h)))) =
          [''%c'' @ rightPad rt nm 25,
           ''%c'' @ rightPad rt (Number_toString rt timeMs @ ''ms'') 9,
           ''%c'' @ nat_toString (length (shape res)) @ ''D '' @
              rightPad rt (shape_toString (shape res)) 14,
           ''%c'' @ nat_toString (sizeFromShape rt (shape res)),
           ''%c'' @ concat (map (\<lambda>(n, input). inputDescription n input) inputs),
           ''%c'' @ template_string extraInfo])"
proof (intro conjI impI)
  show "logKernelProfile rt nm res vals timeMs inputs extraInfo h =
     h\<lparr>logs := logs h @
        [[''%c'' @ rightPad rt nm 25 @ [CHR 0x09] @
          ''%c'' @ rightPad rt (Number_toString rt timeMs @ ''ms'') 9 @ [CHR 0x09] @
          ''%c'' @ nat_toString (length (shape res)) @ ''D '' @
                  rightPad rt (shape_toString (shape res)) 14 @ [CHR 0x09] @
          ''%c'' @ nat_toString (sizeFromShape rt (shape res)) @ [CHR 0x09] @
          ''%c'' @ concat (map (\<lambda>(n, input). inputDescription n input) inputs) @ [CHR 0x09] @
          ''%c'' @ template_string extraInfo,
          ''font-weight:bold'', ''color:red'', ''color:blue'', ''color: orange'',
          ''color: green'', ''color: steelblue'']]\<rparr>"
    by (simp add: logKernelProfile_def Let_def console_log_def inputShapesDescription_acc)
next
  assume a: "\<forall>col\<in>set [rightPad rt nm 25,
                  rightPad rt (Number_toString rt timeMs @ ''ms'') 9,
                  nat_toString (length (shape res)) @ ''D '' @
                    rightPad rt (shape_toString (shape res)) 14,
                  nat_toString (sizeFromShape rt (shape res)),
                  concat (map (\<lambda>(n, input). inputDescription n input) inputs),
                  template_string extraInfo]. CHR 0x09 \<notin> set col"
  have "\<forall>col\<in>set [''%c'' @ rightPad rt nm 25,
         ''%c'' @ rightPad rt (Number_toString rt timeMs @ ''ms'') 9,
         ''%c'' @ nat_toString (length (shape res)) @ ''D '' @
            rightPad rt (shape_toString (shape res)) 14,
         ''%c'' @ nat_toString (sizeFromShape rt (shape res)),
         ''%c'' @ concat (map (\<lambda>(n, input). inputDescription n input) inputs),
         ''%c'' @ template_string extraInfo]. CHR 0x09 \<notin> set col"
    using a by simp
  from splitOn_six[OF this] show "splitOn (CHR 0x09)
        (hd (last (logs (logKernelProfile rt nm res vals timeMs inputs extraInfo h)))) =
        [''%c'' @ rightPad rt nm 25,
         ''%c'' @ rightPad rt (Number_toString rt timeMs @ ''ms'') 9,
         ''%c'' @ nat_toString (length (shape res)) @ ''D '' @
            rightPad rt (shape_toString (shape res)) 14,
         ''%c'' @ nat_toString (sizeFromShape rt (shape res)),
         ''%c'' @ concat (map (\<lambda>(n, input). inputDescription n input) inputs),
         ''%c'' @ template_string extraInfo]"
    by (simp add: logKernelProfile_def Let_def console_log_def inputShapesDescription_acc)
qed

text \<open>The line for the kernel \<open>Add\<close> of the example, with the sample helpers.\<close>

theorem logKernelProfile_line_witness:
  "splitOn (CHR 0x09)
     (hd (last (logs (logKernelProfile sample_runtime ''Add'' sample_output sample_vals (Finite 5)
        sample_inputs (Some []) sample_host)))) =
     [''%cAdd                      '', ''%c5ms      '', ''%c2D 2,2           '', ''%c4'',
      ''%ca: 2D 2,2 b: 2D 2,2 '', ''%c'']"
proof -
  have nt: "\<forall>col\<in>set [rightPad sample_runtime ''Add'' 25,
                  rightPad sample_runtime (Number_toString sample_runtime (Finite 5) @ ''ms'') 9,
                  nat_toString (length (shape sample_output)) @ ''D '' @
                    rightPad sample_runtime (shape_toString (shape sample_output)) 14,
                  nat_toString (sizeFromShape sample_runtime (shape sample_output)),
                  concat (map (\<lambda>(n, input). inputDescription n input) sample_inputs),
                  template_string (Some [])]. CHR 0x09 \<notin> set col"
    by code_simp
  have cols: "[''%c'' @ rightPad sample_runtime ''Add'' 25,
         ''%c'' @ rightPad sample_runtime (Number_toString sample_runtime (Finite 5) @ ''ms'') 9,
         ''%c'' @ nat_toString (length (shape sample_output)) @ ''D '' @
            rightPad sample_runtime (shape_toString (shape sample_output)) 14,
         ''%c'' @ nat_toString (sizeFromShape sample_runtime (shape sample_output)),
         ''%c'' @ concat (map (\<lambda>(n, input). inputDescription n input) sample_inputs),
         ''%c'' @ template_string (Some [])] =
     [''%cAdd                      '', ''%c5ms      '', ''%c2D 2,2           '', ''%c4'',
      ''%ca: 2D 2,2 b: 2D 2,2 '', ''%c'']"
    by code_simp
  from logKernelProfile_line[of sample_runtime "''Add''" sample_output sample_vals "Finite 5"
      sample_inputs "Some []" sample_host] nt
  have "splitOn (CHR 0x09)
     (hd (last (logs (logKernelProfile sample_runtime ''Add'' sample_output sample_vals (Finite 5)
        sample_inputs (Some []) sample_host)))) =
     [''%c'' @ rightPad sample_runtime ''Add'' 25,
         ''%c'' @ rightPad sample_runtime (Number_toString sample_runtime (Finite 5) @ ''ms'') 9,
         ''%c'' @ nat_toString (length (shape sample_output)) @ ''D '' @
            rightPad sample_runtime (shape_toString (shape sample_output)) 14,
         ''%c'' @ nat_toString (sizeFromShape sample_runtime (shape sample_output)),
         ''%c'' @ concat (map (\<lambda>(n, input). inputDescription n input) sample_inputs),
         ''%c'' @ template_string (Some [])]"
    by blast
  with cols show ?thesis by (simp only:)
qed



section \<open>The synchronous part of profileKernel\<close>

lemma computeCalls_Cons [simp]:
  "computeCalls (e # tr) = (if isComputeCalled e then 1 else 0) + computeCalls tr"
  by (simp add: computeCalls_def)

lemma computeCalls_append [simp]:
  "computeCalls (tr @ tr') = computeCalls tr + computeCalls tr'"
  by (simp add: computeCalls_def)

lemma computeCalls_replicate [simp]: "computeCalls (replicate k ComputeCalled) = k"
  by (induction k) (simp_all add: computeCalls_def)

lemma computeCalls_Nil [simp]: "computeCalls [] = 0"
  by (simp add: computeCalls_def)

lemma computeCalls_readCalls [simp]: "computeCalls (readCalls rs) = 0"
  by (simp add: computeCalls_def readCalls_def filter_empty_conv split_beta)

lemma background_not_compute: "isBackground e \<Longrightarrow> \<not> isComputeCalled e"
  by (cases e) simp_all

lemma computeCalls_background: "\<forall>e\<in>set evs. isBackground e \<Longrightarrow> computeCalls evs = 0"
  by (induction evs) (auto dest: background_not_compute)

subsection \<open>The timer runs the wrapper\<close>

text \<open>If the first \<open>k\<close> invocations of the closure all return, the wrapper runs \<open>k\<close> times and
  \<open>result\<close> holds what the last one returned.\<close>

lemma invokeSync_all_return:
  "\<forall>j<k. \<not> isl (f (computeCalls (events fr) + j)) \<Longrightarrow>
   invokeSync k (holdResultWrapperFn f) fr =
     (None, fr\<lparr>events := events fr @ replicate k ComputeCalled,
               result := (if k = 0 then result fr
                          else Some (projr (f (computeCalls (events fr) + k - 1))))\<rparr>)"
proof (induction k arbitrary: fr)
  case 0
  then show ?case by simp
next
  case (Suc k)
  from Suc.prems have f0: "\<not> isl (f (computeCalls (events fr)))"
    by (metis add.right_neutral zero_less_Suc)
  then obtain v where v: "f (computeCalls (events fr)) = Inr v"
    by (cases "f (computeCalls (events fr))") auto
  let ?fr1 = "fr\<lparr>events := events fr @ [ComputeCalled], result := Some v\<rparr>"
  have w: "holdResultWrapperFn f fr = (None, ?fr1)"
    by (simp add: holdResultWrapperFn_def v)
  have c1: "computeCalls (events ?fr1) = Suc (computeCalls (events fr))"
    by simp
  have "\<forall>j<k. \<not> isl (f (computeCalls (events ?fr1) + j))"
    using Suc.prems by (auto simp: c1)
  from Suc.IH[OF this] w v show ?case
    by (cases k) (simp_all add: replicate_app_Cons_same)
qed

text \<open>If invocation \<open>j\<close> is the first to throw, the wrapper runs \<open>j + 1\<close> times and \<open>result\<close>
  holds what invocation \<open>j - 1\<close> returned, if there was one.\<close>

lemma invokeSync_first_throw:
  "j < k \<Longrightarrow> \<forall>i<j. \<not> isl (f (computeCalls (events fr) + i)) \<Longrightarrow>
   f (computeCalls (events fr) + j) = Inl e \<Longrightarrow>
   invokeSync k (holdResultWrapperFn f) fr =
     (Some e, fr\<lparr>events := events fr @ replicate (Suc j) ComputeCalled,
                 result := (if j = 0 then result fr
                            else Some (projr (f (computeCalls (events fr) + j - 1))))\<rparr>)"
proof (induction k arbitrary: fr j)
  case 0
  then show ?case by simp
next
  case (Suc k)
  show ?case
  proof (cases j)
    case 0
    with Suc.prems show ?thesis
      by (simp add: holdResultWrapperFn_def)
  next
    case (Suc j')
    with Suc.prems have f0: "\<not> isl (f (computeCalls (events fr)))"
      by (metis add.right_neutral zero_less_Suc)
    then obtain v where v: "f (computeCalls (events fr)) = Inr v"
      by (cases "f (computeCalls (events fr))") auto
    let ?fr1 = "fr\<lparr>events := events fr @ [ComputeCalled], result := Some v\<rparr>"
    have w: "holdResultWrapperFn f fr = (None, ?fr1)"
      by (simp add: holdResultWrapperFn_def v)
    have c1: "computeCalls (events ?fr1) = Suc (computeCalls (events fr))"
      by simp
    have a: "j' < k" using Suc.prems Suc by simp
    have b: "\<forall>i<j'. \<not> isl (f (computeCalls (events ?fr1) + i))"
      using Suc.prems Suc by (auto simp: c1)
    have c: "f (computeCalls (events ?fr1) + j') = Inl e"
      using Suc.prems Suc by (simp add: c1)
    from Suc.IH[OF a b c] w v Suc show ?thesis
      by (cases j') (simp_all add: replicate_app_Cons_same)
  qed
qed

lemma time_all_return:
  assumes "\<forall>j<k. \<not> isl (f j)" and "syncCalls timer = k"
  shows "time timer (holdResultWrapperFn f) \<lparr>result = None, events = []\<rparr> =
     (Inr Pending, \<lparr>result = (if k = 0 then None else Some (projr (f (k - 1)))),
                    events = TimeCalled # replicate k ComputeCalled\<rparr>)"
proof -
  let ?fr = "\<lparr>result = None, events = [TimeCalled]\<rparr>"
  have "\<forall>j<k. \<not> isl (f (computeCalls (events ?fr) + j))"
    using assms by simp
  from invokeSync_all_return[OF this] assms(2) show ?thesis
    by (simp add: time_def)
qed

lemma time_first_throw:
  assumes "j < k" and "\<forall>i<j. \<not> isl (f i)" and "f j = Inl e" and "syncCalls timer = k"
  shows "time timer (holdResultWrapperFn f) \<lparr>result = None, events = []\<rparr> =
     ((if asyncFn timer then Inr (Rejected e) else Inl e),
      \<lparr>result = (if j = 0 then None else Some (projr (f (j - 1)))),
       events = TimeCalled # replicate (Suc j) ComputeCalled\<rparr>)"
proof -
  let ?fr = "\<lparr>result = None, events = [TimeCalled]\<rparr>"
  have a: "\<forall>i<j. \<not> isl (f (computeCalls (events ?fr) + i))"
    using assms by simp
  have b: "f (computeCalls (events ?fr) + j) = Inl e"
    using assms by simp
  from invokeSync_first_throw[OF assms(1) a b] assms(4) show ?thesis
    by (simp add: time_def)
qed

lemma first_throw:
  assumes "\<exists>j<(k::nat). isl (f j)"
  obtains j e where "j < k" and "\<forall>i<j. \<not> isl (f i)" and "f j = Inl e"
proof -
  from assms obtain j where j: "j < k" "isl (f j)" "\<forall>i<j. \<not> isl (f i)"
    using exists_least_iff[of "\<lambda>j. j < k \<and> isl (f j)"]
    by (metis (no_types, lifting) less_trans)
  then obtain e where "f j = Inl e" by (cases "f j") auto
  with j that show ?thesis by blast
qed

text \<open>Whatever the timer and the closure do, \<open>time\<close> leaves a trace of one call of the timer
  and some calls of the closure, and its handle is not yet fulfilled.\<close>

lemma time_shape:
  "\<exists>out res k. time timer (holdResultWrapperFn f) \<lparr>result = None, events = []\<rparr> =
     (out, \<lparr>result = res, events = TimeCalled # replicate k ComputeCalled\<rparr>) \<and>
     (\<forall>timing. out \<noteq> Inr (Fulfilled timing))"
proof (cases "\<exists>j<syncCalls timer. isl (f j)")
  case False
  then have "\<forall>j<syncCalls timer. \<not> isl (f j)" by simp
  from time_all_return[OF this refl] show ?thesis by auto
next
  case True
  then obtain j e where j: "j < syncCalls timer" "\<forall>i<j. \<not> isl (f i)" "f j = Inl e"
    by (rule first_throw)
  have "time timer (holdResultWrapperFn f) \<lparr>result = None, events = []\<rparr> =
     ((if asyncFn timer then Inr (Rejected e) else Inl e),
      \<lparr>result = (if j = 0 then None else Some (projr (f (j - 1)))),
       events = TimeCalled # replicate (Suc j) ComputeCalled\<rparr>)"
    by (rule time_first_throw[OF j refl])
  moreover have
    "\<forall>timing. (if asyncFn timer then Inr (Rejected e) else Inl e) \<noteq> Inr (Fulfilled timing)"
    by simp
  ultimately show ?thesis by blast
qed

subsection \<open>From the timer to the return\<close>

lemma resultsOf_Some: "resultsOf (Some v) = map Some (outputsOf v)"
  by (cases v) simp_all

lemma forEach_results_Some:
  "forEach_results (map Some rs) s =
     (None, s\<lparr>reads := reads s @ map (\<lambda>r. (r, Pending)) rs,
              trace := trace s @
                map (\<lambda>(i, r). ReadCalled i (dataId r)) (enumerate (length (reads s)) rs)\<rparr>)"
  by (induction rs arbitrary: s) simp_all

lemma profileKernel_after_time:
  assumes "time (backendTimer p) (holdResultWrapperFn f) \<lparr>result = None, events = []\<rparr> =
             (Inr timer, \<lparr>result = Some v, events = TimeCalled # replicate k ComputeCalled\<rparr>)"
  shows "profileKernel p kernelName inputs f h =
           Inr (Some v, returned_state kernelName inputs timer k (outputsOf v) h)"
  using assms
  by (simp add: profileKernel_def resultsOf_Some forEach_results_Some returned_state_def
      readCalls_def)

lemma profileKernel_undefined:
  assumes "time (backendTimer p) (holdResultWrapperFn f) \<lparr>result = None, events = []\<rparr> =
             (Inr timer, \<lparr>result = None, events = tr\<rparr>)"
  shows "profileKernel p kernelName inputs f h = Inl (TypeError, tr)"
  using assms by (simp add: profileKernel_def)

lemma profileKernel_time_throws:
  assumes "time (backendTimer p) (holdResultWrapperFn f) \<lparr>result = None, events = []\<rparr> =
             (Inl e, \<lparr>result = res, events = tr\<rparr>)"
  shows "profileKernel p kernelName inputs f h = Inl (e, tr)"
  using assms by (simp add: profileKernel_def)

lemma profileKernel_ok:
  assumes "syncCalls (backendTimer p) = Suc n" and "\<forall>j\<le>n. \<not> isl (f j)"
  shows "profileKernel p kernelName inputs f h =
           Inr (Some (projr (f n)),
                returned_state kernelName inputs Pending (Suc n) (outputsOf (projr (f n))) h)"
proof -
  have "\<forall>j<Suc n. \<not> isl (f j)" using assms(2) by auto
  from time_all_return[OF this assms(1)] show ?thesis
    by (intro profileKernel_after_time) simp
qed

text \<open>The two outcomes of a call: an exception after the timer ran, or a result and the
  state described by \<open>returned_state\<close>.\<close>

lemma profileKernel_outcome:
  "(\<exists>e k. profileKernel p kernelName inputs f h = Inl (e, TimeCalled # replicate k ComputeCalled)) \<or>
   (\<exists>res timer k. (\<forall>timing. timer \<noteq> Fulfilled timing) \<and>
      profileKernel p kernelName inputs f h =
        Inr (Some res, returned_state kernelName inputs timer k (outputsOf res) h))"
proof -
  obtain out res k where
    t: "time (backendTimer p) (holdResultWrapperFn f) \<lparr>result = None, events = []\<rparr> =
     (out, \<lparr>result = res, events = TimeCalled # replicate k ComputeCalled\<rparr>)"
    and nf: "\<forall>timing. out \<noteq> Inr (Fulfilled timing)"
    using time_shape by blast
  show ?thesis
  proof (cases out)
    case (Inl e)
    with t show ?thesis by (simp add: profileKernel_def)
  next
    case (Inr timer)
    show ?thesis
    proof (cases res)
      case None
      with t Inr show ?thesis by (simp add: profileKernel_def)
    next
      case (Some r)
      with t Inr have "profileKernel p kernelName inputs f h =
           Inr (Some r, returned_state kernelName inputs timer k (outputsOf r) h)"
        by (intro profileKernel_after_time) simp
      with nf Inr show ?thesis by auto
    qed
  qed
qed

lemma profileKernel_Inr:
  assumes "profileKernel p kernelName inputs f h = Inr (v, s0)"
  shows "\<exists>res timer k. v = Some res \<and> (\<forall>timing. timer \<noteq> Fulfilled timing) \<and>
           s0 = returned_state kernelName inputs timer k (outputsOf res) h"
  using profileKernel_outcome[of p kernelName inputs f h] assms by auto

text \<open>When an exception reaches the caller.\<close>

lemma profileKernel_isl:
  "isl (profileKernel p kernelName inputs f h) =
     (syncCalls (backendTimer p) = 0 \<or>
      ((\<exists>j<syncCalls (backendTimer p). isl (f j)) \<and> (\<not> asyncFn (backendTimer p) \<or> isl (f 0))))"
proof (cases "\<exists>j<syncCalls (backendTimer p). isl (f j)")
  case False
  then have all: "\<forall>j<syncCalls (backendTimer p). \<not> isl (f j)" by simp
  show ?thesis
  proof (cases "syncCalls (backendTimer p)")
    case 0
    from time_all_return[OF all refl] 0 have
      "profileKernel p kernelName inputs f h = Inl (TypeError, [TimeCalled])"
      by (intro profileKernel_undefined) simp
    with 0 show ?thesis by simp
  next
    case (Suc n)
    with all have "\<forall>j\<le>n. \<not> isl (f j)" by auto
    from profileKernel_ok[OF Suc this] False Suc show ?thesis by simp
  qed
next
  case True
  then obtain j e where j: "j < syncCalls (backendTimer p)" "\<forall>i<j. \<not> isl (f i)" "f j = Inl e"
    by (rule first_throw)
  note t = time_first_throw[OF j refl]
  show ?thesis
  proof (cases "asyncFn (backendTimer p)")
    case False
    with t have "profileKernel p kernelName inputs f h =
        Inl (e, TimeCalled # replicate (Suc j) ComputeCalled)"
      by (intro profileKernel_time_throws) simp
    with True False j show ?thesis by auto
  next
    case async: True
    show ?thesis
    proof (cases j)
      case 0
      with t async have "profileKernel p kernelName inputs f h =
          Inl (TypeError, TimeCalled # replicate (Suc j) ComputeCalled)"
        by (intro profileKernel_undefined) simp
      with True async j 0 show ?thesis by auto
    next
      case (Suc j')
      with t async have "profileKernel p kernelName inputs f h =
          Inr (Some (projr (f (j - 1))),
               returned_state kernelName inputs (Rejected e) (Suc j)
                 (outputsOf (projr (f (j - 1)))) h)"
        by (intro profileKernel_after_time) simp
      moreover have "\<not> isl (f 0)" using j(2) Suc by simp
      ultimately show ?thesis using True async j by auto
    qed
  qed
qed

lemma sample_profiler_timer:
  "syncCalls (backendTimer sample_profiler) = 1" "asyncFn (backendTimer sample_profiler)"
  by (simp_all add: sample_profiler_def Profiler_new_def async_timer_def)

lemma plain_profiler_timer:
  "syncCalls (backendTimer plain_profiler) = 1" "\<not> asyncFn (backendTimer plain_profiler)"
  by (simp_all add: plain_profiler_def Profiler_new_def plain_timer_def)

lemma sample_call:
  "profileKernel sample_profiler ''Add'' sample_inputs sample_compute sample_host =
     Inr (Some (Single sample_output), sample_state)"
proof -
  have s: "syncCalls (backendTimer sample_profiler) = Suc 0"
    by (simp add: sample_profiler_timer)
  have c: "sample_compute 0 = Inr (Single sample_output)" by (simp add: sample_compute_def)
  then have "\<forall>j\<le>0. \<not> isl (sample_compute j)" by simp
  from profileKernel_ok[OF s this, of "''Add''" sample_inputs sample_host]
  show ?thesis by (simp add: c sample_state_def)
qed

text \<open>
  C1. Let the timer run the wrapper synchronously before it returns, \<open>n + 1\<close> times (once,
  for \<open>n = 0\<close>), and let the closure return each time, the last time the value \<open>v\<close>. Then
  \<open>profileKernel\<close> returns \<open>v\<close> itself, a single descriptor as a single descriptor and a
  sequence as the same sequence, and leaves one pending read per descriptor of \<open>v\<close>.
\<close>

theorem profileKernel_returns_result:
  assumes "syncCalls (backendTimer p) = Suc n"
    and "\<forall>j<n. \<not> isl (f j)"
    and "f n = Inr v"
  shows "profileKernel p kernelName inputs f h =
           Inr (Some v, returned_state kernelName inputs Pending (Suc n) (outputsOf v) h)"
proof -
  have "\<forall>j\<le>n. \<not> isl (f j)"
    using assms(2,3) by (auto simp: le_less)
  from profileKernel_ok[OF assms(1) this, of kernelName inputs h] assms(3)
  show ?thesis by simp
qed

theorem profileKernel_returns_result_witness:
  "syncCalls (backendTimer sample_profiler) = Suc 0
   \<and> sample_compute 0 = Inr (Single sample_output)
   \<and> profileKernel sample_profiler ''Add'' sample_inputs sample_compute sample_host =
       Inr (Some (Single sample_output), sample_state)"
proof -
  have a: "syncCalls (backendTimer sample_profiler) = Suc 0"
    by (simp add: sample_profiler_timer)
  have b: "\<forall>j<0. \<not> isl (sample_compute j)" by simp
  have c: "sample_compute 0 = Inr (Single sample_output)" by (simp add: sample_compute_def)
  from profileKernel_returns_result[OF a b c, of "''Add''" sample_inputs sample_host]
  have "profileKernel sample_profiler ''Add'' sample_inputs sample_compute sample_host =
       Inr (Some (Single sample_output), sample_state)"
    by (simp add: sample_state_def)
  with a c show ?thesis by (intro conjI)
qed

section \<open>The continuations\<close>

lemma split_check: "\<exists>bad h'. checkComputationForErrors rt vals dt kernelName h = (bad, h')"
  by (cases "checkComputationForErrors rt vals dt kernelName h") simp

subsection \<open>Every action only adds events of the continuations\<close>

lemma extends_refl: "extends s s"
  by (simp add: extends_def)

lemma extends_trans: "extends s s' \<Longrightarrow> extends s' s'' \<Longrightarrow> extends s s''"
  by (auto simp: extends_def)

lemma map_fst_update: "i < length xs \<Longrightarrow> map fst (xs[i := (fst (xs ! i), y)]) = map fst xs"
  by (simp add: map_update list_update_same_conv)

lemma extends_fulfilRead: "extends s (fulfilRead i vals s)"
  by (simp add: extends_def fulfilRead_def map_fst_update)

lemma extends_rejectRead: "extends s (rejectRead i e s)"
  by (simp add: extends_def rejectRead_def map_fst_update)

lemma extends_fulfilTimer: "extends s (fulfilTimer timing s)"
  by (simp add: extends_def fulfilTimer_def)

lemma extends_rejectTimer: "extends s (rejectTimer e s)"
  by (simp add: extends_def rejectTimer_def)

lemma extends_readReaction:
  "extends (s\<lparr>microtasks := q\<rparr>) (readReaction rt i r vals (s\<lparr>microtasks := q\<rparr>))"
  by (simp add: extends_def readReaction_def split: prod.splits promise.splits)

lemma extends_timerReaction:
  "extends (s\<lparr>microtasks := q\<rparr>) (timerReaction p i r vals timing (s\<lparr>microtasks := q\<rparr>))"
  by (simp add: extends_def timerReaction_def Let_def split: prod.splits option.splits)

lemma extends_microtasks_update: "extends s (s\<lparr>microtasks := q\<rparr>)"
  by (simp add: extends_def)

lemma extends_runMicrotask: "extends s (runMicrotask rt p s)"
  unfolding runMicrotask_def
  by (auto split: list.splits task.splits
      intro: extends_refl extends_trans[OF extends_microtasks_update extends_readReaction]
             extends_trans[OF extends_microtasks_update extends_timerReaction])

lemma extends_step: "extends s (step rt p a s)"
  by (cases a) (simp_all add: extends_fulfilRead extends_rejectRead extends_fulfilTimer
      extends_rejectTimer extends_runMicrotask)

lemma extends_run: "extends s (run rt p acts s)"
  by (induction acts arbitrary: s) (auto intro: extends_refl extends_trans extends_step)

lemma trace_run:
  "\<exists>bg. trace (run rt p acts s) = trace s @ bg \<and> (\<forall>e\<in>set bg. isBackground e)"
  using extends_run[of s rt p acts] by (simp add: extends_def)

lemma run_fields:
  "kname (run rt p acts s) = kname s"
  "kinputs (run rt p acts s) = kinputs s"
  "map fst (reads (run rt p acts s)) = map fst (reads s)"
  "length (reads (run rt p acts s)) = length (reads s)"
  using extends_run[of s rt p acts] by (auto simp: extends_def dest: map_eq_imp_length_eq)

lemma length_reads_step: "length (reads (step rt p a s)) = length (reads s)"
  using extends_step[of s rt p a] by (auto simp: extends_def dest: map_eq_imp_length_eq)

lemma returned_state_fields [simp]:
  "kname (returned_state kernelName inputs timer k rs h) = kernelName"
  "kinputs (returned_state kernelName inputs timer k rs h) = inputs"
  "map fst (reads (returned_state kernelName inputs timer k rs h)) = rs"
  "length (reads (returned_state kernelName inputs timer k rs h)) = length rs"
  by (simp_all add: returned_state_def comp_def)

subsection \<open>Each output moves through its phases\<close>

lemma tasksOf_map_thens:
  "filter (\<lambda>t. taskIndex t = i) (map (\<lambda>(j, r, vals). TimerReaction j r vals timing) ths) =
     map (\<lambda>(j, r, vals). TimerReaction j r vals timing) (filter (\<lambda>(j, r, vals). j = i) ths)"
  by (induction ths) auto

lemma phase_fulfilRead:
  assumes "phase_inv i s" and "i < length (reads s)"
  shows "phase_inv i (fulfilRead j vals s)"
proof (cases "j < length (reads s) \<and> snd (reads s ! j) = Pending")
  case False
  with assms show ?thesis by (auto simp: fulfilRead_def)
next
  case True
  show ?thesis
  proof (cases "i = j")
    case True
    with \<open>j < length (reads s) \<and> snd (reads s ! j) = Pending\<close> assms show ?thesis
      unfolding phase_inv_def fulfilRead_def
      by (auto simp: tasksOf_def thensOf_def loggerCalls_def)
  next
    case False
    with \<open>j < length (reads s) \<and> snd (reads s ! j) = Pending\<close> assms show ?thesis
      unfolding phase_inv_def fulfilRead_def
      by (simp add: tasksOf_def thensOf_def loggerCalls_def)
  qed
qed

lemma phase_rejectRead:
  assumes "phase_inv i s" and "i < length (reads s)"
  shows "phase_inv i (rejectRead j e s)"
proof (cases "j < length (reads s) \<and> snd (reads s ! j) = Pending")
  case False
  with assms show ?thesis by (auto simp: rejectRead_def)
next
  case True
  show ?thesis
  proof (cases "i = j")
    case True
    with \<open>j < length (reads s) \<and> snd (reads s ! j) = Pending\<close> assms show ?thesis
      unfolding phase_inv_def rejectRead_def
      by (auto simp: tasksOf_def thensOf_def loggerCalls_def)
  next
    case False
    with \<open>j < length (reads s) \<and> snd (reads s ! j) = Pending\<close> assms show ?thesis
      unfolding phase_inv_def rejectRead_def
      by (simp add: tasksOf_def thensOf_def loggerCalls_def)
  qed
qed

lemma phase_fulfilTimer:
  assumes "phase_inv i s"
  shows "phase_inv i (fulfilTimer timing s)"
proof (cases "timerP s = Pending")
  case False
  with assms show ?thesis by (simp add: fulfilTimer_def)
next
  case True
  with assms show ?thesis
    unfolding phase_inv_def fulfilTimer_def
    by (auto simp: tasksOf_def thensOf_def loggerCalls_def tasksOf_map_thens)
qed

lemma phase_rejectTimer:
  assumes "phase_inv i s"
  shows "phase_inv i (rejectTimer e s)"
proof (cases "timerP s = Pending")
  case False
  with assms show ?thesis by (simp add: rejectTimer_def)
next
  case True
  with assms show ?thesis
    unfolding phase_inv_def rejectTimer_def
    by (auto simp: tasksOf_def thensOf_def loggerCalls_def)
qed

lemma phase_readReaction:
  assumes "phase_inv i s" and "microtasks s = ReadReaction j r vals # q"
  shows "phase_inv i (readReaction rt j r vals (s\<lparr>microtasks := q\<rparr>))"
proof -
  obtain bad h' where
    c: "checkComputationForErrors rt vals (dtype r) (kname s) (console s) = (bad, h')"
    using split_check by blast
  show ?thesis
  proof (cases "i = j")
    case True
    with assms c show ?thesis
      unfolding phase_inv_def readReaction_def
      by (cases "timerP s") (auto simp: tasksOf_def thensOf_def loggerCalls_def)
  next
    case False
    with assms c show ?thesis
      unfolding phase_inv_def readReaction_def
      by (cases "timerP s") (simp_all add: tasksOf_def thensOf_def loggerCalls_def)
  qed
qed

lemma phase_timerReaction:
  assumes "phase_inv i s" and "microtasks s = TimerReaction j r vals timing # q"
  shows "phase_inv i (timerReaction p j r vals timing (s\<lparr>microtasks := q\<rparr>))"
proof -
  obtain err h' where c: "logger p (kname s) r vals (kernelMs timing) (kinputs s)
      (Some (case getExtraProfileInfo timing of None \<Rightarrow> [] | Some info \<Rightarrow> info)) (console s) =
        (err, h')"
    by (meson surj_pair)
  show ?thesis
  proof (cases "i = j")
    case True
    with assms c show ?thesis
      unfolding phase_inv_def timerReaction_def
      by (cases err) (auto simp: tasksOf_def thensOf_def loggerCalls_def expectedLog_def)
  next
    case False
    with assms c show ?thesis
      unfolding phase_inv_def timerReaction_def
      by (cases err) (simp_all add: tasksOf_def thensOf_def loggerCalls_def)
  qed
qed

lemma phase_runMicrotask:
  assumes "phase_inv i s"
  shows "phase_inv i (runMicrotask rt p s)"
proof (cases "microtasks s")
  case Nil
  with assms show ?thesis by (simp add: runMicrotask_def)
next
  case (Cons t q)
  with assms show ?thesis
    by (cases t) (simp_all add: runMicrotask_def phase_readReaction phase_timerReaction)
qed

lemma phase_step:
  assumes "phase_inv i s" and "i < length (reads s)"
  shows "phase_inv i (step rt p a s)"
  using assms
  by (cases a) (simp_all add: phase_fulfilRead phase_rejectRead phase_fulfilTimer
      phase_rejectTimer phase_runMicrotask)


lemma phase_returned_state:
  "i < length rs \<Longrightarrow> phase_inv i (returned_state kernelName inputs timer k rs h)"
  by (simp add: phase_inv_def returned_state_def tasksOf_def thensOf_def loggerCalls_def
      readCalls_def filter_empty_conv split_beta)






subsection \<open>The order of events\<close>

lemma check_verdict: "fst (checkComputationForErrors rt vals dt kernelName h) = verdict dt vals"
proof (cases "dt = ''float32''")
  case True
  then show ?thesis by (simp add: verdict_def check_result)
next
  case False
  then show ?thesis by (simp add: verdict_def checkComputationForErrors_def)
qed

lemma validatedAfterRead_append:
  "validatedAfterRead i r vals tr \<Longrightarrow> validatedAfterRead i r vals (tr @ tr')"
  unfolding validatedAfterRead_def by (metis append.assoc append_Cons)

lemma validatedAfterRead_now:
  "ReadFulfilled i vals \<in> set tr \<Longrightarrow>
     validatedAfterRead i r vals (tr @ [Validated i r vals (verdict (dtype r) vals)])"
  unfolding validatedAfterRead_def by blast

lemma taskReady_append: "taskReady tr t \<Longrightarrow> taskReady (tr @ tr') t"
  by (cases t) (auto intro: validatedAfterRead_append)

lemma wellOrdered_snoc:
  "wellOrdered (tr @ [e]) = (wellOrdered tr \<and> mayFollow tr e)"
proof
  assume w: "wellOrdered (tr @ [e])"
  have "mayFollow tr e"
    using w unfolding wellOrdered_def by blast
  moreover have "wellOrdered tr"
    unfolding wellOrdered_def
  proof (intro allI impI)
    fix earlier x later
    assume "tr = earlier @ x # later"
    then have "tr @ [e] = earlier @ x # (later @ [e])" by simp
    with w show "mayFollow earlier x" unfolding wellOrdered_def by blast
  qed
  ultimately show "wellOrdered tr \<and> mayFollow tr e" by simp
next
  assume a: "wellOrdered tr \<and> mayFollow tr e"
  show "wellOrdered (tr @ [e])"
    unfolding wellOrdered_def
  proof (intro allI impI)
    fix earlier x later
    assume d: "tr @ [e] = earlier @ x # later"
    show "mayFollow earlier x"
    proof (cases later rule: rev_cases)
      case Nil
      with d have "earlier = tr" "x = e" by simp_all
      with a show ?thesis by simp
    next
      case (snoc later' z)
      with d have "tr @ [e] = (earlier @ x # later') @ [z]" by simp
      then have "tr = earlier @ x # later'" by (simp only: append1_eq_conv)
      with a show ?thesis unfolding wellOrdered_def by blast
    qed
  qed
qed

lemma order_fulfilRead: "order_inv s \<Longrightarrow> order_inv (fulfilRead j vals s)"
  unfolding order_inv_def fulfilRead_def
  by (auto simp: wellOrdered_snoc taskReady_append validatedAfterRead_append
      intro: validatedAfterRead_append)

lemma order_rejectRead: "order_inv s \<Longrightarrow> order_inv (rejectRead j e s)"
  unfolding order_inv_def rejectRead_def
  by (auto simp: wellOrdered_snoc taskReady_append validatedAfterRead_append
      intro: validatedAfterRead_append)

lemma order_fulfilTimer:
  assumes "order_inv s"
  shows "order_inv (fulfilTimer timing s)"
proof (cases "timerP s = Pending")
  case False
  with assms show ?thesis by (simp add: fulfilTimer_def)
next
  case True
  have th: "\<And>i r vals. (i, r, vals) \<in> set (timerThen s) \<Longrightarrow>
              validatedAfterRead i r vals (trace s @ [TimerFulfilled timing])"
    using assms unfolding order_inv_def by (blast intro: validatedAfterRead_append)
  from assms True th show ?thesis
    unfolding order_inv_def fulfilTimer_def
    by (auto simp: wellOrdered_snoc taskReady_append)
qed

lemma order_rejectTimer: "order_inv s \<Longrightarrow> order_inv (rejectTimer e s)"
  unfolding order_inv_def rejectTimer_def
  by (auto simp: wellOrdered_snoc taskReady_append validatedAfterRead_append
      intro: validatedAfterRead_append)

lemma order_readReaction:
  assumes "order_inv s" and "microtasks s = ReadReaction j r vals # q"
  shows "order_inv (readReaction rt j r vals (s\<lparr>microtasks := q\<rparr>))"
proof -
  obtain bad h' where
    c: "checkComputationForErrors rt vals (dtype r) (kname s) (console s) = (bad, h')"
    using split_check by blast
  have bad: "bad = verdict (dtype r) vals"
    using check_verdict[of rt vals "dtype r" "kname s" "console s"] c by simp
  from assms have rd: "ReadFulfilled j vals \<in> set (trace s)"
    unfolding order_inv_def by simp
  note v = validatedAfterRead_now[OF rd, of r]
  from assms c v show ?thesis
    unfolding order_inv_def readReaction_def bad
    by (cases "timerP s")
       (auto simp: wellOrdered_snoc taskReady_append validatedAfterRead_append
          intro: validatedAfterRead_append)
qed

lemma order_timerReaction:
  assumes "order_inv s" and "microtasks s = TimerReaction j r vals timing # q"
  shows "order_inv (timerReaction p j r vals timing (s\<lparr>microtasks := q\<rparr>))"
proof -
  obtain err h' where c: "logger p (kname s) r vals (kernelMs timing) (kinputs s)
      (Some (case getExtraProfileInfo timing of None \<Rightarrow> [] | Some info \<Rightarrow> info)) (console s) =
        (err, h')"
    by (meson surj_pair)
  from assms have rdy: "TimerFulfilled timing \<in> set (trace s)"
      "validatedAfterRead j r vals (trace s)"
    unfolding order_inv_def by simp_all
  then have mf: "mayFollow (trace s)
      (LoggerCalled j (kname s) r vals (kernelMs timing) (kinputs s)
         (Some (case getExtraProfileInfo timing of None \<Rightarrow> [] | Some info \<Rightarrow> info)))"
    by auto
  from assms c mf show ?thesis
    unfolding order_inv_def timerReaction_def
    by (cases err)
       (auto simp: wellOrdered_snoc taskReady_append validatedAfterRead_append
          simp del: mayFollow.simps
          intro: validatedAfterRead_append)
qed

lemma order_runMicrotask:
  assumes "order_inv s"
  shows "order_inv (runMicrotask rt p s)"
proof (cases "microtasks s")
  case Nil
  with assms show ?thesis by (simp add: runMicrotask_def)
next
  case (Cons t q)
  with assms show ?thesis
    by (cases t) (simp_all add: runMicrotask_def order_readReaction order_timerReaction)
qed

lemma order_step: "order_inv s \<Longrightarrow> order_inv (step rt p a s)"
  by (cases a) (simp_all add: order_fulfilRead order_rejectRead order_fulfilTimer
      order_rejectTimer order_runMicrotask)

lemma order_run: "order_inv s \<Longrightarrow> order_inv (run rt p acts s)"
  by (induction acts arbitrary: s) (simp_all add: order_step)

lemma mayFollow_sync: "\<not> isBackground e \<Longrightarrow> mayFollow earlier e"
  by (cases e) simp_all

lemma wellOrdered_sync: "\<forall>e\<in>set tr. \<not> isBackground e \<Longrightarrow> wellOrdered tr"
  unfolding wellOrdered_def by (auto intro: mayFollow_sync)

lemma sync_trace_not_background:
  "\<forall>e\<in>set (TimeCalled # replicate k ComputeCalled @ readCalls rs @ [Returned]). \<not> isBackground e"
  by (auto simp: readCalls_def)

lemma returned_trace_sync:
  "\<forall>e\<in>set (trace (returned_state kernelName inputs timer k rs h)). \<not> isBackground e"
  using sync_trace_not_background[of k rs] by (simp add: returned_state_def)

lemma order_returned_state:
  "\<forall>timing. timer \<noteq> Fulfilled timing \<Longrightarrow>
     order_inv (returned_state kernelName inputs timer k rs h)"
  unfolding order_inv_def returned_state_def
  using wellOrdered_sync[OF sync_trace_not_background] by simp

lemma order_after_call:
  assumes "profileKernel p kernelName inputs f h = Inr (v, s0)"
  shows "wellOrdered (trace (run rt p acts s0))"
proof -
  from profileKernel_Inr[OF assms] obtain res timer k where
    nf: "\<forall>timing. timer \<noteq> Fulfilled timing"
    and s0: "s0 = returned_state kernelName inputs timer k (outputsOf res) h"
    by blast
  have "order_inv s0" unfolding s0 by (rule order_returned_state[OF nf])
  then have "order_inv (run rt p acts s0)" by (rule order_run)
  then show ?thesis by (simp add: order_inv_def)
qed

subsection \<open>The console and the unhandled rejections follow the trace\<close>

lemma replay_Nil [simp]: "replay rt p kn [] ob = ob"
  by (simp add: replay_def)

lemma replay_Cons [simp]: "replay rt p kn (e # tr) ob = replay rt p kn tr (effect rt p kn ob e)"
  by (simp add: replay_def)

lemma replay_append [simp]:
  "replay rt p kn (tr @ tr') ob = replay rt p kn tr' (replay rt p kn tr ob)"
  by (simp add: replay_def)

lemma effect_sync: "\<not> isBackground e \<Longrightarrow> effect rt p kn ob e = ob"
  by (cases e) simp_all

lemma replay_sync: "\<forall>e\<in>set tr. \<not> isBackground e \<Longrightarrow> replay rt p kn tr ob = ob"
  by (induction tr arbitrary: ob) (simp_all add: effect_sync)

lemma replayed_fulfilRead: "replayed rt p ob s \<Longrightarrow> replayed rt p ob (fulfilRead i vals s)"
  by (simp add: replayed_def fulfilRead_def observe_def)

lemma replayed_rejectRead:
  assumes "replayed rt p ob s"
  shows "replayed rt p ob (rejectRead i e s)"
proof -
  from assms have a: "replay rt p (kname s) (trace s) ob = observe s"
    by (simp add: replayed_def)
  show ?thesis by (simp add: replayed_def rejectRead_def a) (simp add: observe_def)
qed

lemma replayed_fulfilTimer:
  assumes "replayed rt p ob s"
  shows "replayed rt p ob (fulfilTimer timing s)"
proof -
  from assms have a: "replay rt p (kname s) (trace s) ob = observe s"
    by (simp add: replayed_def)
  show ?thesis by (simp add: replayed_def fulfilTimer_def a) (simp add: observe_def)
qed

lemma replayed_rejectTimer:
  assumes "replayed rt p ob s"
  shows "replayed rt p ob (rejectTimer e s)"
proof -
  from assms have a: "replay rt p (kname s) (trace s) ob = observe s"
    by (simp add: replayed_def)
  show ?thesis
    by (simp add: replayed_def rejectTimer_def a) (simp add: observe_def map_replicate_const)
qed

lemma replayed_readReaction:
  assumes "replayed rt p ob s"
  shows "replayed rt p ob (readReaction rt j r vals (s\<lparr>microtasks := q\<rparr>))"
proof -
  from assms have a: "replay rt p (kname s) (trace s) ob = observe s"
    by (simp add: replayed_def)
  obtain bad h' where
    c: "checkComputationForErrors rt vals (dtype r) (kname s) (console s) = (bad, h')"
    using split_check by blast
  show ?thesis
    by (cases "timerP s")
       (simp_all add: replayed_def readReaction_def c a, simp_all add: observe_def c)
qed

lemma replayed_timerReaction:
  assumes "replayed rt p ob s"
  shows "replayed rt p ob (timerReaction p j r vals timing (s\<lparr>microtasks := q\<rparr>))"
proof -
  from assms have a: "replay rt p (kname s) (trace s) ob = observe s"
    by (simp add: replayed_def)
  obtain err h' where c: "logger p (kname s) r vals (kernelMs timing) (kinputs s)
      (Some (case getExtraProfileInfo timing of None \<Rightarrow> [] | Some info \<Rightarrow> info)) (console s) =
        (err, h')"
    by (meson surj_pair)
  show ?thesis
    by (cases err)
       (simp_all add: replayed_def timerReaction_def c a, simp_all add: observe_def c)
qed

lemma replayed_runMicrotask:
  assumes "replayed rt p ob s"
  shows "replayed rt p ob (runMicrotask rt p s)"
proof (cases "microtasks s")
  case Nil
  with assms show ?thesis by (simp add: runMicrotask_def)
next
  case (Cons t q)
  with assms show ?thesis
    by (cases t) (simp_all add: runMicrotask_def replayed_readReaction replayed_timerReaction)
qed

lemma replayed_step: "replayed rt p ob s \<Longrightarrow> replayed rt p ob (step rt p a s)"
  by (cases a) (simp_all add: replayed_fulfilRead replayed_rejectRead replayed_fulfilTimer
      replayed_rejectTimer replayed_runMicrotask)

lemma replayed_run: "replayed rt p ob s \<Longrightarrow> replayed rt p ob (run rt p acts s)"
  by (induction acts arbitrary: s) (simp_all add: replayed_step)

lemma replayed_returned_state:
  "replayed rt p (at_return h timer) (returned_state kernelName inputs timer k rs h)"
  unfolding replayed_def
  by (simp only: replay_sync[OF returned_trace_sync])
     (simp add: observe_def at_return_def returned_state_def)

text \<open>After a call that returned, the console, the unhandled rejections and the timing
  handle are what the events of the trace have made of them.\<close>

lemma replayed_after_call:
  assumes "profileKernel p kernelName inputs f h = Inr (v, s0)"
  shows "observe (run rt p acts s0) =
           replay rt p kernelName (trace (run rt p acts s0)) (at_return h (timerP s0))"
proof -
  from profileKernel_Inr[OF assms] obtain res timer k where
    s0: "s0 = returned_state kernelName inputs timer k (outputsOf res) h"
    by blast
  have t: "timerP s0 = timer" by (simp add: s0 returned_state_def)
  have "replayed rt p (at_return h timer) s0"
    unfolding s0 by (rule replayed_returned_state)
  then have "replayed rt p (at_return h timer) (run rt p acts s0)" by (rule replayed_run)
  then show ?thesis by (simp add: replayed_def run_fields s0 t[unfolded s0])
qed

lemma console_after_call:
  assumes "profileKernel p kernelName inputs f h = Inr (v, s0)"
  shows "console (run rt p acts s0) =
           ohost (replay rt p kernelName (trace (run rt p acts s0)) (at_return h (timerP s0)))"
  using replayed_after_call[OF assms, of rt acts, symmetric] by (simp add: observe_def)

lemma unhandled_replayed:
  assumes "profileKernel p kernelName inputs f h = Inr (v, s0)"
  shows "unhandled (run rt p acts s0) =
           orejections (replay rt p kernelName (trace (run rt p acts s0))
             (at_return h (timerP s0)))"
  using replayed_after_call[OF assms, of rt acts, symmetric] by (simp add: observe_def)

subsection \<open>Failures of the continuations are unhandled rejections\<close>

lemma thensOf_nonempty: "thensOf i s \<noteq> [] \<Longrightarrow> timerThen s \<noteq> []"
  by (auto simp: thensOf_def)

lemma failure_fulfilRead:
  assumes "failure_inv p i s"
  shows "failure_inv p i (fulfilRead j vals s)"
proof (cases "j < length (reads s) \<and> snd (reads s ! j) = Pending")
  case False
  with assms show ?thesis by (auto simp: fulfilRead_def)
next
  case True
  show ?thesis
  proof (cases "i = j")
    case True
    with \<open>j < length (reads s) \<and> snd (reads s ! j) = Pending\<close> show ?thesis
      unfolding failure_inv_def fulfilRead_def by (auto simp: tasksOf_def)
  next
    case False
    with \<open>j < length (reads s) \<and> snd (reads s ! j) = Pending\<close> assms show ?thesis
      unfolding failure_inv_def fulfilRead_def by (auto simp: tasksOf_def)
  qed
qed

lemma failure_rejectRead:
  assumes "failure_inv p i s"
  shows "failure_inv p i (rejectRead j e s)"
proof (cases "j < length (reads s) \<and> snd (reads s ! j) = Pending")
  case False
  with assms show ?thesis by (auto simp: rejectRead_def)
next
  case True
  show ?thesis
  proof (cases "i = j")
    case True
    with \<open>j < length (reads s) \<and> snd (reads s ! j) = Pending\<close> show ?thesis
      unfolding failure_inv_def rejectRead_def by (auto simp: tasksOf_def)
  next
    case False
    with \<open>j < length (reads s) \<and> snd (reads s ! j) = Pending\<close> assms show ?thesis
      unfolding failure_inv_def rejectRead_def by (auto simp: tasksOf_def)
  qed
qed

text \<open>While the timing handle is pending, an output whose read reaction has run has its
  callback waiting on the handle.\<close>

lemma waiting_when_pending:
  assumes "phase_inv i s" and "timerP s = Pending" and "reads s ! i = (r, Fulfilled vals)"
    and "tasksOf i s = []"
  shows "thensOf i s = [(i, r, vals)]"
  using assms unfolding phase_inv_def by auto

lemma failure_fulfilTimer:
  assumes "failure_inv p i s" and "phase_inv i s"
  shows "failure_inv p i (fulfilTimer timing s)"
proof (cases "timerP s = Pending")
  case False
  with assms show ?thesis by (simp add: fulfilTimer_def)
next
  case True
  have "tasksOf i (fulfilTimer timing s) \<noteq> []" if "reads s ! i = (r, Fulfilled vals)" for r vals
  proof (cases "tasksOf i s = []")
    case False
    with True show ?thesis by (simp add: fulfilTimer_def tasksOf_def)
  next
    case t: True
    from waiting_when_pending[OF assms(2) True that t] True show ?thesis
      by (simp add: fulfilTimer_def tasksOf_def tasksOf_map_thens thensOf_def)
  qed
  with True show ?thesis
    unfolding failure_inv_def by (auto simp: fulfilTimer_def)
qed

lemma failure_rejectTimer:
  assumes "failure_inv p i s" and "phase_inv i s"
  shows "failure_inv p i (rejectTimer e s)"
proof (cases "timerP s = Pending")
  case False
  with assms show ?thesis by (simp add: rejectTimer_def)
next
  case True
  have "e \<in> set (unhandled (rejectTimer e s))"
    if "reads s ! i = (r, Fulfilled vals)" and "tasksOf i s = []" for r vals
  proof -
    from waiting_when_pending[OF assms(2) True that] have "timerThen s \<noteq> []"
      by (intro thensOf_nonempty[of i]) simp
    then have "e \<in> set (map (\<lambda>_. e) (timerThen s))"
      by (cases "timerThen s") simp_all
    with True show ?thesis by (simp add: rejectTimer_def del: set_map)
  qed
  with True show ?thesis
    unfolding failure_inv_def by (auto simp: rejectTimer_def tasksOf_def)
qed

lemma failure_readReaction:
  assumes "failure_inv p i s" and "microtasks s = ReadReaction j r vals # q"
  shows "failure_inv p i (readReaction rt j r vals (s\<lparr>microtasks := q\<rparr>))"
proof -
  obtain bad h' where
    c: "checkComputationForErrors rt vals (dtype r) (kname s) (console s) = (bad, h')"
    using split_check by blast
  show ?thesis
  proof (cases "i = j")
    case True
    with assms c show ?thesis
      unfolding failure_inv_def readReaction_def
      by (cases "timerP s") (auto simp: tasksOf_def)
  next
    case False
    with assms c show ?thesis
      unfolding failure_inv_def readReaction_def
      by (cases "timerP s") (auto simp: tasksOf_def)
  qed
qed

text \<open>The logging reaction of an output carries the descriptor and the values of its
  read and the result of the timing handle.\<close>

lemma logging_task:
  assumes "phase_inv i s" and "tasksOf i s = TimerReaction i r' vals' timing' # ts"
  shows "reads s ! i = (r', Fulfilled vals') \<and> timerP s = Fulfilled timing' \<and> ts = []"
  using assms unfolding phase_inv_def by auto

lemma failure_timerReaction:
  assumes "failure_inv p i s" and "phase_inv i s"
    and "microtasks s = TimerReaction j r vals timing # q"
  shows "failure_inv p i (timerReaction p j r vals timing (s\<lparr>microtasks := q\<rparr>))"
proof -
  obtain err h' where c: "logger p (kname s) r vals (kernelMs timing) (kinputs s)
      (Some (case getExtraProfileInfo timing of None \<Rightarrow> [] | Some info \<Rightarrow> info)) (console s) =
        (err, h')"
    by (meson surj_pair)
  show ?thesis
  proof (cases "i = j")
    case False
    with assms c show ?thesis
      unfolding failure_inv_def timerReaction_def
      by (cases err) (auto simp: tasksOf_def)
  next
    case True
    have "tasksOf i s = TimerReaction i r vals timing # filter (\<lambda>t. taskIndex t = i) q"
      by (simp add: tasksOf_def assms(3) True)
    from logging_task[OF assms(2) this]
    have rd: "reads s ! i = (r, Fulfilled vals)" and tm: "timerP s = Fulfilled timing" by simp_all
    have thrown: "e \<in> set (unhandled (timerReaction p j r vals timing (s\<lparr>microtasks := q\<rparr>)))"
      if "\<forall>hc. fst (logger p (kname s) r vals (kernelMs timing) (kinputs s)
             (Some (case getExtraProfileInfo timing of None \<Rightarrow> [] | Some info \<Rightarrow> info)) hc) =
           Some e" for e
    proof -
      from that c have "err = Some e" by (metis fst_conv)
      with c show ?thesis by (simp add: timerReaction_def)
    qed
    have same: "reads (timerReaction p j r vals timing (s\<lparr>microtasks := q\<rparr>)) = reads s"
      "timerP (timerReaction p j r vals timing (s\<lparr>microtasks := q\<rparr>)) = timerP s"
      "kname (timerReaction p j r vals timing (s\<lparr>microtasks := q\<rparr>)) = kname s"
      "kinputs (timerReaction p j r vals timing (s\<lparr>microtasks := q\<rparr>)) = kinputs s"
      using c by (cases err; simp add: timerReaction_def)+
    show ?thesis
      unfolding failure_inv_def same using rd tm thrown by auto
  qed
qed

lemma failure_runMicrotask:
  assumes "failure_inv p i s" and "phase_inv i s"
  shows "failure_inv p i (runMicrotask rt p s)"
proof (cases "microtasks s")
  case Nil
  with assms show ?thesis by (simp add: runMicrotask_def)
next
  case (Cons t q)
  with assms show ?thesis
    by (cases t) (simp_all add: runMicrotask_def failure_readReaction failure_timerReaction)
qed

lemma failure_step:
  assumes "failure_inv p i s" and "phase_inv i s"
  shows "failure_inv p i (step rt p a s)"
  using assms
  by (cases a) (simp_all add: failure_fulfilRead failure_rejectRead failure_fulfilTimer
      failure_rejectTimer failure_runMicrotask)

lemma failure_run:
  assumes "failure_inv p i s" and "phase_inv i s" and "i < length (reads s)"
  shows "failure_inv p i (run rt p acts s)"
  using assms
  by (induction acts arbitrary: s) (simp_all add: failure_step phase_step length_reads_step)

lemma failure_returned_state:
  "i < length rs \<Longrightarrow> failure_inv p i (returned_state kernelName inputs timer k rs h)"
  by (simp add: failure_inv_def returned_state_def)

lemma failure_after_call:
  assumes "profileKernel p kernelName inputs f h = Inr (Some res, s0)"
    and "i < length (outputsOf res)"
  shows "failure_inv p i (run rt p acts s0)"
proof -
  from profileKernel_Inr[OF assms(1)] obtain timer k where
    s0: "s0 = returned_state kernelName inputs timer k (outputsOf res) h"
    by auto
  have "failure_inv p i s0" unfolding s0 by (rule failure_returned_state[OF assms(2)])
  moreover have "phase_inv i s0" unfolding s0 by (rule phase_returned_state[OF assms(2)])
  ultimately show ?thesis by (rule failure_run) (simp add: s0 assms(2))
qed

subsection \<open>The sample runs\<close>




lemma sample_run_trace:
  "trace sample_run =
     [TimeCalled, ComputeCalled, ReadCalled 0 3, Returned, ReadFulfilled 0 sample_vals,
      TimerFulfilled sample_timing, Validated 0 sample_output sample_vals False,
      LoggerCalled 0 ''Add'' sample_output sample_vals (Finite 5) sample_inputs (Some [])]"
  by code_simp


lemma nan_run_state:
  "reads nan_run = [(sample_output, Fulfilled nan_vals)]"
  "timerP nan_run = Fulfilled sample_timing"
  "microtasks nan_run = []"
  by code_simp+

lemma nan_run_trace:
  "trace nan_run =
     [TimeCalled, ComputeCalled, ReadCalled 0 3, Returned, ReadFulfilled 0 nan_vals,
      Validated 0 sample_output nan_vals True, TimerFulfilled sample_timing] @
     LoggerCalled 0 ''Add'' sample_output nan_vals (Finite 5) sample_inputs (Some []) # []"
  by code_simp

lemma nan_run_console:
  "warnings (console nan_run) = [found_message sample_runtime NaN ''Add'']"
  "length (logs (console nan_run)) = 1"
  by code_simp+



text \<open>
  C6. In the trace of any run after a call that returned, every logger call for output
  \<open>i\<close> comes after the fulfilment of the timing handle, whose time it passes on, and after
  a validation of the values it passes on, for the descriptor it passes on; that validation
  comes after the fulfilment of the read of output \<open>i\<close>, which gave these values, and its
  result is what \<open>checkComputationForErrors\<close> returns for them and the data type of the
  descriptor. The console at the end is the console of the call after the validations and
  the logger calls of the trace, in the order of the trace.
\<close>

theorem logger_after_read_and_timer:
  assumes "profileKernel p kernelName inputs f h = Inr (v, s0)"
    and "trace (run rt p acts s0) = earlier @ LoggerCalled i nm r vals ms ins extra # later"
  shows "(\<exists>timing. TimerFulfilled timing \<in> set earlier \<and> ms = kernelMs timing)
       \<and> (\<exists>pre bad post.
             earlier = pre @ Validated i r vals bad # post \<and>
             ReadFulfilled i vals \<in> set pre \<and>
             (\<forall>hc. fst (checkComputationForErrors rt vals (dtype r) kernelName hc) = bad))
       \<and> console (run rt p acts s0) =
           ohost (replay rt p kernelName (trace (run rt p acts s0)) (at_return h (timerP s0)))"
proof -
  have "wellOrdered (trace (run rt p acts s0))"
    using assms(1) by (rule order_after_call)
  with assms(2) have m: "mayFollow earlier (LoggerCalled i nm r vals ms ins extra)"
    unfolding wellOrdered_def by blast
  then obtain pre post where
    e: "earlier = pre @ Validated i r vals (verdict (dtype r) vals) # post"
    and rd: "ReadFulfilled i vals \<in> set pre"
    by (auto simp: validatedAfterRead_def)
  have "\<exists>pre bad post.
             earlier = pre @ Validated i r vals bad # post \<and>
             ReadFulfilled i vals \<in> set pre \<and>
             (\<forall>hc. fst (checkComputationForErrors rt vals (dtype r) kernelName hc) = bad)"
    by (rule exI[of _ pre], rule exI[of _ "verdict (dtype r) vals"], rule exI[of _ post])
       (simp add: e rd check_verdict)
  moreover from m have "\<exists>timing. TimerFulfilled timing \<in> set earlier \<and> ms = kernelMs timing"
    by simp
  moreover have "console (run rt p acts s0) =
           ohost (replay rt p kernelName (trace (run rt p acts s0)) (at_return h (timerP s0)))"
    using assms(1) by (rule console_after_call)
  ultimately show ?thesis by simp
qed

text \<open>A run in which the output holds a NaN: the validation comes after the read and
  before the logger call, it returns true, and the console ends with its warning and the
  line of the logger.\<close>

theorem logger_after_read_and_timer_witness:
  "trace nan_run =
     [TimeCalled, ComputeCalled, ReadCalled 0 3, Returned, ReadFulfilled 0 nan_vals,
      Validated 0 sample_output nan_vals True, TimerFulfilled sample_timing] @
     LoggerCalled 0 ''Add'' sample_output nan_vals (Finite 5) sample_inputs (Some []) # []
   \<and> (\<exists>pre bad post.
         [TimeCalled, ComputeCalled, ReadCalled 0 3, Returned, ReadFulfilled 0 nan_vals,
          Validated 0 sample_output nan_vals True, TimerFulfilled sample_timing] =
           pre @ Validated 0 sample_output nan_vals bad # post \<and>
         ReadFulfilled 0 nan_vals \<in> set pre \<and>
         (\<forall>hc. fst (checkComputationForErrors sample_runtime nan_vals (dtype sample_output)
                       ''Add'' hc) = bad))
   \<and> console nan_run =
       ohost (replay sample_runtime sample_profiler ''Add'' (trace nan_run)
                (at_return sample_host Pending))
   \<and> warnings (console nan_run) = [found_message sample_runtime NaN ''Add'']
   \<and> length (logs (console nan_run)) = 1"
proof -
  have t: "trace (run sample_runtime sample_profiler
       [FulfilRead 0 nan_vals, RunMicrotask, FulfilTimer sample_timing, RunMicrotask]
       sample_state) =
     [TimeCalled, ComputeCalled, ReadCalled 0 3, Returned, ReadFulfilled 0 nan_vals,
      Validated 0 sample_output nan_vals True, TimerFulfilled sample_timing] @
     LoggerCalled 0 ''Add'' sample_output nan_vals (Finite 5) sample_inputs (Some []) # []"
    using nan_run_trace by (simp add: nan_run_def)
  have t0: "timerP sample_state = Pending" by (simp add: sample_state_def returned_state_def)
  from logger_after_read_and_timer[OF sample_call t]
  have "(\<exists>pre bad post.
         [TimeCalled, ComputeCalled, ReadCalled 0 3, Returned, ReadFulfilled 0 nan_vals,
          Validated 0 sample_output nan_vals True, TimerFulfilled sample_timing] =
           pre @ Validated 0 sample_output nan_vals bad # post \<and>
         ReadFulfilled 0 nan_vals \<in> set pre \<and>
         (\<forall>hc. fst (checkComputationForErrors sample_runtime nan_vals (dtype sample_output)
                       ''Add'' hc) = bad))"
    and "console nan_run =
       ohost (replay sample_runtime sample_profiler ''Add'' (trace nan_run)
                (at_return sample_host Pending))"
    unfolding nan_run_def[symmetric] t0 by blast+
  with nan_run_trace nan_run_console show ?thesis by (intro conjI)
qed

section \<open>How often the collaborators are called\<close>

text \<open>With a timer that runs the wrapper once, the first invocation of the closure decides
  the call.\<close>

lemma profileKernel_once:
  assumes "syncCalls (backendTimer p) = Suc 0"
  shows "profileKernel p kernelName inputs f h =
     (case f 0 of
        Inr v \<Rightarrow> Inr (Some v, returned_state kernelName inputs Pending (Suc 0) (outputsOf v) h)
      | Inl e \<Rightarrow>
          Inl (if asyncFn (backendTimer p) then TypeError else e, [TimeCalled, ComputeCalled]))"
proof (cases "f 0")
  case (Inl e)
  have "time (backendTimer p) (holdResultWrapperFn f) \<lparr>result = None, events = []\<rparr> =
     ((if asyncFn (backendTimer p) then Inr (Rejected e) else Inl e),
      \<lparr>result = (if (0::nat) = 0 then None else Some (projr (f (0 - 1)))),
       events = TimeCalled # replicate (Suc 0) ComputeCalled\<rparr>)"
    by (rule time_first_throw) (simp_all add: assms Inl)
  then show ?thesis
    by (cases "asyncFn (backendTimer p)") (simp_all add: profileKernel_def Inl)
next
  case (Inr res)
  have "\<forall>j\<le>0. \<not> isl (f j)" using Inr by simp
  from profileKernel_ok[OF assms this, of kernelName inputs h] Inr
  show ?thesis by simp
qed

lemma run_after_once:
  "\<exists>rds bg. trace (run rt p acts
            (returned_state kernelName inputs Pending (Suc 0) (outputsOf res) h)) =
          [TimeCalled, ComputeCalled] @ rds @ [Returned] @ bg \<and>
          computeCalls rds = 0 \<and> computeCalls bg = 0"
proof -
  obtain bg where m: "trace (run rt p acts
          (returned_state kernelName inputs Pending (Suc 0) (outputsOf res) h)) =
        trace (returned_state kernelName inputs Pending (Suc 0) (outputsOf res) h) @ bg"
    and b: "\<forall>e\<in>set bg. isBackground e"
    using trace_run by blast
  from m have "trace (run rt p acts
          (returned_state kernelName inputs Pending (Suc 0) (outputsOf res) h)) =
        [TimeCalled, ComputeCalled] @ readCalls (outputsOf res) @ [Returned] @ bg"
    by (simp add: returned_state_def)
  with computeCalls_background[OF b] show ?thesis
    using computeCalls_readCalls by blast
qed

text \<open>
  C3. With a timer that runs the wrapper exactly once before it returns, the closure is
  invoked exactly once, synchronously during the call, whatever it returns and however
  many descriptors it produces. The first invocation decides the call: if it returns \<open>v\<close>,
  the call returns \<open>v\<close>; if it throws, the call ends in an exception, the closure's own when
  the timer is a plain function. No other invocation is made: a closure that agrees on the
  first invocation gives the same call, whatever it would do when invoked again. In the
  trace: if the call ends in an exception, its trace has one invocation; if it returns, the
  trace of every later run starts with the call of the timer and the one invocation, the
  return comes after them, and no invocation follows.
\<close>

theorem compute_invoked_once:
  assumes "syncCalls (backendTimer p) = 1"
  shows "(\<forall>v. f 0 = Inr v \<longrightarrow>
            profileKernel p kernelName inputs f h =
              Inr (Some v, returned_state kernelName inputs Pending (Suc 0) (outputsOf v) h))
       \<and> (\<forall>e. f 0 = Inl e \<longrightarrow>
            profileKernel p kernelName inputs f h =
              Inl (if asyncFn (backendTimer p) then TypeError else e,
                   [TimeCalled, ComputeCalled]))
       \<and> (\<forall>g. g 0 = f 0 \<longrightarrow>
            profileKernel p kernelName inputs g h = profileKernel p kernelName inputs f h)
       \<and> (\<forall>e tr. profileKernel p kernelName inputs f h = Inl (e, tr) \<longrightarrow> computeCalls tr = 1)
       \<and> (\<forall>v s0 acts. profileKernel p kernelName inputs f h = Inr (v, s0) \<longrightarrow>
            (\<exists>rds bg. trace (run rt p acts s0) =
                 [TimeCalled, ComputeCalled] @ rds @ [Returned] @ bg \<and>
               computeCalls rds = 0 \<and> computeCalls bg = 0))"
proof -
  have s: "syncCalls (backendTimer p) = Suc 0" using assms by simp
  note once = profileKernel_once[OF s, of kernelName inputs _ h]
  have 1: "\<forall>v. f 0 = Inr v \<longrightarrow>
            profileKernel p kernelName inputs f h =
              Inr (Some v, returned_state kernelName inputs Pending (Suc 0) (outputsOf v) h)"
    by (simp add: once)
  have 2: "\<forall>e. f 0 = Inl e \<longrightarrow>
            profileKernel p kernelName inputs f h =
              Inl (if asyncFn (backendTimer p) then TypeError else e,
                   [TimeCalled, ComputeCalled])"
    by (simp add: once)
  have 3: "\<forall>g. g 0 = f 0 \<longrightarrow>
            profileKernel p kernelName inputs g h = profileKernel p kernelName inputs f h"
    by (simp add: once)
  have 4: "\<forall>e tr. profileKernel p kernelName inputs f h = Inl (e, tr) \<longrightarrow> computeCalls tr = 1"
    by (cases "f 0") (simp_all add: once)
  have 5: "\<forall>v s0 acts. profileKernel p kernelName inputs f h = Inr (v, s0) \<longrightarrow>
            (\<exists>rds bg. trace (run rt p acts s0) =
                 [TimeCalled, ComputeCalled] @ rds @ [Returned] @ bg \<and>
               computeCalls rds = 0 \<and> computeCalls bg = 0)"
  proof (cases "f 0")
    case (Inl e)
    then show ?thesis by (simp add: once)
  next
    case (Inr res)
    then show ?thesis using run_after_once[of rt p _ kernelName inputs res h]
      by (simp add: once)
  qed
  from 1 2 3 4 5 show ?thesis by (intro conjI)
qed

text \<open>The sample call, with a closure that would throw if it were invoked a second time:
  the call returns what the first invocation returned, as with the closure that always
  returns.\<close>

theorem compute_invoked_once_witness:
  "syncCalls (backendTimer sample_profiler) = 1
   \<and> once_compute 0 = Inr (Single sample_output)
   \<and> once_compute 1 = Inl (Thrown ''invoked again'')
   \<and> sample_compute 0 = once_compute 0
   \<and> profileKernel sample_profiler ''Add'' sample_inputs once_compute sample_host =
       Inr (Some (Single sample_output), sample_state)
   \<and> profileKernel sample_profiler ''Add'' sample_inputs sample_compute sample_host =
       profileKernel sample_profiler ''Add'' sample_inputs once_compute sample_host
   \<and> (\<exists>rds bg. trace (run sample_runtime sample_profiler
                  [FulfilRead 0 sample_vals, RunMicrotask, FulfilTimer sample_timing, RunMicrotask]
                  sample_state) =
          [TimeCalled, ComputeCalled] @ rds @ [Returned] @ bg \<and>
        computeCalls rds = 0 \<and> computeCalls bg = 0)"
proof -
  have a: "syncCalls (backendTimer sample_profiler) = 1"
    by (simp add: sample_profiler_timer)
  have b: "once_compute 0 = Inr (Single sample_output)"
    and c: "once_compute 1 = Inl (Thrown ''invoked again'')"
    and d: "sample_compute 0 = once_compute 0"
    by (simp_all add: once_compute_def sample_compute_def)
  note t = compute_invoked_once[OF a, of once_compute "''Add''" sample_inputs sample_host
      sample_runtime]
  from t b have e: "profileKernel sample_profiler ''Add'' sample_inputs once_compute sample_host =
       Inr (Some (Single sample_output), sample_state)"
    by (simp add: sample_state_def)
  from t d have f: "profileKernel sample_profiler ''Add'' sample_inputs sample_compute sample_host =
       profileKernel sample_profiler ''Add'' sample_inputs once_compute sample_host"
    by blast
  from t e have g: "\<exists>rds bg. trace (run sample_runtime sample_profiler
                  [FulfilRead 0 sample_vals, RunMicrotask, FulfilTimer sample_timing, RunMicrotask]
                  sample_state) =
          [TimeCalled, ComputeCalled] @ rds @ [Returned] @ bg \<and>
        computeCalls rds = 0 \<and> computeCalls bg = 0"
    by blast
  from a b c d e f g show ?thesis by (intro conjI)
qed








text \<open>The run in which the read of the one output is rejected: the timing handle is
  fulfilled, nothing is queued or waiting, the logger was never called and nothing was
  written to the console.\<close>

lemma rejected_run_state:
  "reads rejected_run = [(sample_output, Rejected (Thrown ''read failed''))]"
  "timerP rejected_run = Fulfilled sample_timing"
  "microtasks rejected_run = []"
  "timerThen rejected_run = []"
  "unhandled rejected_run = [Thrown ''read failed'']"
  "trace rejected_run =
     [TimeCalled, ComputeCalled, ReadCalled 0 3, Returned,
      ReadRejected 0 (Thrown ''read failed''), TimerFulfilled sample_timing]"
  "console rejected_run = sample_host"
  by code_simp+


text \<open>Nothing more can happen after that run: every action leaves the state as it is.\<close>

lemma rejected_run_final: "step rt p a rejected_run = rejected_run"
  by (cases a)
     (auto simp: fulfilRead_def rejectRead_def fulfilTimer_def rejectTimer_def
        runMicrotask_def rejected_run_state)

lemma rejected_run_stays: "run rt p acts rejected_run = rejected_run"
  by (induction acts) (simp_all add: rejected_run_final)

section \<open>Errors\<close>

text \<open>The validation has no failing path: it returns a boolean and adds at most one
  warning, one exactly when it returns true.\<close>

lemma check_never_raises:
  "\<exists>bad msgs n. checkComputationForErrors rt vals dt kernelName h =
       (bad, h\<lparr>warnings := warnings h @ msgs, elementReads := n\<rparr>) \<and>
     bad = (msgs \<noteq> []) \<and> length msgs \<le> 1"
proof (cases "dt = ''float32''")
  case False
  show ?thesis
    by (rule exI[of _ False], rule exI[of _ "[]"], rule exI[of _ "elementReads h"])
       (simp add: checkComputationForErrors_def False)
next
  case True
  show ?thesis
  proof (cases "List.find offending vals")
    case None
    show ?thesis
      by (rule exI[of _ False], rule exI[of _ "[]"],
          rule exI[of _ "elementReads h + length vals"])
         (simp add: check_float32 True None)
  next
    case (Some num)
    show ?thesis
      by (rule exI[of _ True], rule exI[of _ "[found_message rt num kernelName]"],
          rule exI[of _ "elementReads h +
             Suc (length (takeWhile (\<lambda>x. \<not> offending x) vals))"])
         (simp add: check_float32 True Some console_warn_def)
  qed
qed

text \<open>A rejected read stays an unhandled rejection, whatever happens later.\<close>

lemma unhandled_fulfilRead: "rejections_unhandled s \<Longrightarrow> rejections_unhandled (fulfilRead j vals s)"
  unfolding rejections_unhandled_def fulfilRead_def
  by (auto simp: nth_list_update)

lemma unhandled_rejectRead: "rejections_unhandled s \<Longrightarrow> rejections_unhandled (rejectRead j e s)"
  unfolding rejections_unhandled_def rejectRead_def
  by (auto simp: nth_list_update)

lemma unhandled_fulfilTimer: "rejections_unhandled s \<Longrightarrow> rejections_unhandled (fulfilTimer timing s)"
  unfolding rejections_unhandled_def fulfilTimer_def by auto

lemma unhandled_rejectTimer: "rejections_unhandled s \<Longrightarrow> rejections_unhandled (rejectTimer e s)"
  unfolding rejections_unhandled_def rejectTimer_def by auto

lemma unhandled_readReaction:
  assumes "rejections_unhandled s"
  shows "rejections_unhandled (readReaction rt j r vals (s\<lparr>microtasks := q\<rparr>))"
proof -
  obtain bad h' where
    c: "checkComputationForErrors rt vals (dtype r) (kname s) (console s) = (bad, h')"
    using split_check by blast
  from assms c show ?thesis
    unfolding rejections_unhandled_def readReaction_def
    by (cases "timerP s") auto
qed

lemma unhandled_timerReaction:
  assumes "rejections_unhandled s"
  shows "rejections_unhandled (timerReaction p j r vals timing (s\<lparr>microtasks := q\<rparr>))"
proof -
  obtain err h' where c: "logger p (kname s) r vals (kernelMs timing) (kinputs s)
      (Some (case getExtraProfileInfo timing of None \<Rightarrow> [] | Some info \<Rightarrow> info)) (console s) =
        (err, h')"
    by (meson surj_pair)
  from assms c show ?thesis
    unfolding rejections_unhandled_def timerReaction_def
    by (cases err) auto
qed

lemma unhandled_runMicrotask:
  assumes "rejections_unhandled s"
  shows "rejections_unhandled (runMicrotask rt p s)"
proof (cases "microtasks s")
  case Nil
  with assms show ?thesis by (simp add: runMicrotask_def)
next
  case (Cons t q)
  with assms show ?thesis
    by (cases t) (simp_all add: runMicrotask_def unhandled_readReaction unhandled_timerReaction)
qed

lemma unhandled_step: "rejections_unhandled s \<Longrightarrow> rejections_unhandled (step rt p a s)"
  by (cases a) (simp_all add: unhandled_fulfilRead unhandled_rejectRead unhandled_fulfilTimer
      unhandled_rejectTimer unhandled_runMicrotask)

lemma unhandled_run: "rejections_unhandled s \<Longrightarrow> rejections_unhandled (run rt p acts s)"
  by (induction acts arbitrary: s) (simp_all add: unhandled_step)

lemma unhandled_returned_state:
  "rejections_unhandled (returned_state kernelName inputs timer k rs h)"
  by (simp add: rejections_unhandled_def returned_state_def)

lemma unhandled_after_call:
  assumes "profileKernel p kernelName inputs f h = Inr (v, s0)"
  shows "rejections_unhandled (run rt p acts s0)"
proof -
  from profileKernel_Inr[OF assms] obtain res timer k where
    "s0 = returned_state kernelName inputs timer k (outputsOf res) h" by blast
  then show ?thesis by (simp add: unhandled_run unhandled_returned_state)
qed

text \<open>After a call that returned, the failures of the continuation of an output whose
  reactions have run are among the unhandled rejections.\<close>

lemma failures_unhandled:
  assumes pk: "profileKernel p kernelName inputs f h = Inr (v, s0)"
    and i: "i < length (reads (run rt p acts s0))"
    and rd: "reads (run rt p acts s0) ! i = (r, Fulfilled vals)"
    and t: "tasksOf i (run rt p acts s0) = []"
  shows "(timerP (run rt p acts s0) = Rejected e \<longrightarrow> e \<in> set (unhandled (run rt p acts s0)))
       \<and> (\<forall>timing. timerP (run rt p acts s0) = Fulfilled timing \<and>
             (\<forall>hc. fst (logger p kernelName r vals (kernelMs timing) inputs
                         (Some (case getExtraProfileInfo timing of None \<Rightarrow> []
                                | Some info \<Rightarrow> info)) hc) = Some e) \<longrightarrow>
             e \<in> set (unhandled (run rt p acts s0)))"
proof -
  from profileKernel_Inr[OF pk] obtain res timer k where
    v: "v = Some res" and s0: "s0 = returned_state kernelName inputs timer k (outputsOf res) h"
    by blast
  have "length (reads (run rt p acts s0)) = length (outputsOf res)"
    by (simp add: run_fields s0)
  with i have "i < length (outputsOf res)" by simp
  with pk have "failure_inv p i (run rt p acts s0)"
    unfolding v by (rule failure_after_call)
  moreover have "kname (run rt p acts s0) = kernelName" "kinputs (run rt p acts s0) = inputs"
    by (simp_all add: run_fields s0)
  ultimately show ?thesis
    using rd t unfolding failure_inv_def by auto
qed

lemma closure_exception_reaches_caller:
  assumes "syncCalls (backendTimer p) = Suc n" and "\<not> asyncFn (backendTimer p)"
    and "f 0 = Inl e"
  shows "profileKernel p kernelName inputs f h = Inl (e, [TimeCalled, ComputeCalled])"
proof -
  have "time (backendTimer p) (holdResultWrapperFn f) \<lparr>result = None, events = []\<rparr> =
     ((if asyncFn (backendTimer p) then Inr (Rejected e) else Inl e),
      \<lparr>result = (if (0::nat) = 0 then None else Some (projr (f (0 - 1)))),
       events = TimeCalled # replicate (Suc 0) ComputeCalled\<rparr>)"
    by (rule time_first_throw) (simp_all add: assms)
  with assms(2) show ?thesis by (simp add: profileKernel_def)
qed

lemma failing_logger_call:
  "profileKernel failing_logger_profiler ''Add'' sample_inputs sample_compute sample_host =
     Inr (Some (Single sample_output), sample_state)"
proof -
  have s: "syncCalls (backendTimer failing_logger_profiler) = Suc 0"
    by (simp add: failing_logger_profiler_def Profiler_new_def async_timer_def)
  have c: "sample_compute 0 = Inr (Single sample_output)" by (simp add: sample_compute_def)
  then have "\<forall>j\<le>0. \<not> isl (sample_compute j)" by simp
  from profileKernel_ok[OF s this, of "''Add''" sample_inputs sample_host]
  show ?thesis by (simp add: c sample_state_def)
qed

lemma timer_rejected_run_state:
  "reads timer_rejected_run = [(sample_output, Fulfilled sample_vals)]"
  "timerP timer_rejected_run = Rejected (Thrown ''timer failed'')"
  "tasksOf 0 timer_rejected_run = []"
  by code_simp+

lemma logger_failed_run_state:
  "reads logger_failed_run = [(sample_output, Fulfilled sample_vals)]"
  "timerP logger_failed_run = Fulfilled sample_timing"
  "tasksOf 0 logger_failed_run = []"
  by code_simp+

text \<open>
  C8, as the code has it. \<open>checkComputationForErrors\<close> has no failing path: it returns a
  boolean and adds at most one warning, one exactly when it returns true. The caller is
  not reached by what happens in the continuations: the call does not depend on the
  logger, and when it returns nothing is unhandled yet; whatever the promises settle to
  afterwards, the failures of the continuations end as unhandled rejections, which are
  those of the events of the trace and no others: the reason of every rejected read; for
  every output whose read reaction has run, the reason with which the timing handle is
  rejected; for every output whose logging reaction has run, what the logger throws when
  it is called with the arguments of that output. An exception of the closure is not
  caught: when the timer is a plain function that runs the wrapper and the closure throws
  the first time it is invoked, the caller gets the exception of the closure.
\<close>

theorem errors_reaching_caller:
  "(\<exists>bad msgs n. checkComputationForErrors rt vals dt kernelName h =
          (bad, h\<lparr>warnings := warnings h @ msgs, elementReads := n\<rparr>) \<and>
        bad = (msgs \<noteq> []) \<and> length msgs \<le> 1)
   \<and> profileKernel (p\<lparr>logger := lg\<rparr>) kernelName inputs f h =
       profileKernel p kernelName inputs f h
   \<and> (\<forall>v s0 acts. profileKernel p kernelName inputs f h = Inr (v, s0) \<longrightarrow>
         unhandled s0 = []
       \<and> unhandled (run rt p acts s0) =
           orejections (replay rt p kernelName (trace (run rt p acts s0))
                          (at_return h (timerP s0)))
       \<and> (\<forall>i<length (reads (run rt p acts s0)). \<forall>e.
             (snd (reads (run rt p acts s0) ! i) = Rejected e \<longrightarrow>
                e \<in> set (unhandled (run rt p acts s0)))
           \<and> (\<forall>r ovals. reads (run rt p acts s0) ! i = (r, Fulfilled ovals) \<and>
                  tasksOf i (run rt p acts s0) = [] \<longrightarrow>
                  (timerP (run rt p acts s0) = Rejected e \<longrightarrow>
                     e \<in> set (unhandled (run rt p acts s0)))
                \<and> (\<forall>timing. timerP (run rt p acts s0) = Fulfilled timing \<and>
                      (\<forall>hc. fst (logger p kernelName r ovals (kernelMs timing) inputs
                                  (Some (case getExtraProfileInfo timing of None \<Rightarrow> []
                                         | Some info \<Rightarrow> info)) hc) = Some e) \<longrightarrow>
                      e \<in> set (unhandled (run rt p acts s0))))))
   \<and> (\<forall>n e. syncCalls (backendTimer p) = Suc n \<and> \<not> asyncFn (backendTimer p) \<and>
         f 0 = Inl e \<longrightarrow>
         profileKernel p kernelName inputs f h = Inl (e, [TimeCalled, ComputeCalled]))"
proof -
  have c1: "\<exists>bad msgs n. checkComputationForErrors rt vals dt kernelName h =
          (bad, h\<lparr>warnings := warnings h @ msgs, elementReads := n\<rparr>) \<and>
        bad = (msgs \<noteq> []) \<and> length msgs \<le> 1"
    by (rule check_never_raises)
  have c2: "profileKernel (p\<lparr>logger := lg\<rparr>) kernelName inputs f h =
       profileKernel p kernelName inputs f h"
    by (simp add: profileKernel_def)
  have c3: "unhandled s0 = []
       \<and> unhandled (run rt p acts s0) =
           orejections (replay rt p kernelName (trace (run rt p acts s0))
                          (at_return h (timerP s0)))
       \<and> (\<forall>i<length (reads (run rt p acts s0)). \<forall>e.
             (snd (reads (run rt p acts s0) ! i) = Rejected e \<longrightarrow>
                e \<in> set (unhandled (run rt p acts s0)))
           \<and> (\<forall>r ovals. reads (run rt p acts s0) ! i = (r, Fulfilled ovals) \<and>
                  tasksOf i (run rt p acts s0) = [] \<longrightarrow>
                  (timerP (run rt p acts s0) = Rejected e \<longrightarrow>
                     e \<in> set (unhandled (run rt p acts s0)))
                \<and> (\<forall>timing. timerP (run rt p acts s0) = Fulfilled timing \<and>
                      (\<forall>hc. fst (logger p kernelName r ovals (kernelMs timing) inputs
                                  (Some (case getExtraProfileInfo timing of None \<Rightarrow> []
                                         | Some info \<Rightarrow> info)) hc) = Some e) \<longrightarrow>
                      e \<in> set (unhandled (run rt p acts s0)))))"
    if pk: "profileKernel p kernelName inputs f h = Inr (v, s0)" for v s0 acts
  proof (intro conjI allI impI)
    from profileKernel_Inr[OF pk] show "unhandled s0 = []"
      by (auto simp: returned_state_def)
    show "unhandled (run rt p acts s0) =
           orejections (replay rt p kernelName (trace (run rt p acts s0))
                          (at_return h (timerP s0)))"
      using pk by (rule unhandled_replayed)
  next
    fix i e
    assume i: "i < length (reads (run rt p acts s0))"
      and r: "snd (reads (run rt p acts s0) ! i) = Rejected e"
    from pk have "rejections_unhandled (run rt p acts s0)"
      by (rule unhandled_after_call)
    with i r show "e \<in> set (unhandled (run rt p acts s0))"
      unfolding rejections_unhandled_def by blast
  next
    fix i e r ovals
    assume i: "i < length (reads (run rt p acts s0))"
      and a: "reads (run rt p acts s0) ! i = (r, Fulfilled ovals) \<and>
                tasksOf i (run rt p acts s0) = []"
      and t: "timerP (run rt p acts s0) = Rejected e"
    from failures_unhandled[OF pk i, of r ovals e] a t
    show "e \<in> set (unhandled (run rt p acts s0))" by blast
  next
    fix i e r ovals timing
    assume i: "i < length (reads (run rt p acts s0))"
      and a: "reads (run rt p acts s0) ! i = (r, Fulfilled ovals) \<and>
                tasksOf i (run rt p acts s0) = []"
      and t: "timerP (run rt p acts s0) = Fulfilled timing \<and>
                (\<forall>hc. fst (logger p kernelName r ovals (kernelMs timing) inputs
                            (Some (case getExtraProfileInfo timing of None \<Rightarrow> []
                                   | Some info \<Rightarrow> info)) hc) = Some e)"
    from failures_unhandled[OF pk i, of r ovals e] a t
    show "e \<in> set (unhandled (run rt p acts s0))" by blast
  qed
  have c4: "\<forall>n e. syncCalls (backendTimer p) = Suc n \<and> \<not> asyncFn (backendTimer p) \<and>
         f 0 = Inl e \<longrightarrow>
         profileKernel p kernelName inputs f h = Inl (e, [TimeCalled, ComputeCalled])"
    using closure_exception_reaches_caller by blast
  from c1 c2 c3 c4 show ?thesis by (intro conjI allI impI) blast+
qed

text \<open>A closure that throws under a plain timer; a rejected read; a timing handle rejected
  after the read reaction has run; a logger that throws.\<close>

theorem errors_reaching_caller_witness:
  "profileKernel plain_profiler ''Add'' sample_inputs failing_compute sample_host =
     Inl (Thrown ''kernel failed'', [TimeCalled, ComputeCalled])
   \<and> snd (reads rejected_run ! 0) = Rejected (Thrown ''read failed'')
   \<and> Thrown ''read failed'' \<in> set (unhandled rejected_run)
   \<and> reads timer_rejected_run ! 0 = (sample_output, Fulfilled sample_vals)
   \<and> tasksOf 0 timer_rejected_run = []
   \<and> timerP timer_rejected_run = Rejected (Thrown ''timer failed'')
   \<and> Thrown ''timer failed'' \<in> set (unhandled timer_rejected_run)
   \<and> reads logger_failed_run ! 0 = (sample_output, Fulfilled sample_vals)
   \<and> tasksOf 0 logger_failed_run = []
   \<and> timerP logger_failed_run = Fulfilled sample_timing
   \<and> Thrown ''logger failed'' \<in> set (unhandled logger_failed_run)
   \<and> unhandled sample_run = []"
proof -
  note t1 = errors_reaching_caller[where rt = sample_runtime and vals = sample_vals
          and dt = "''float32''" and kernelName = "''Add''" and h = sample_host
          and p = plain_profiler and lg = "Logger sample_runtime" and inputs = sample_inputs
          and f = failing_compute]
  note t2 = errors_reaching_caller[where rt = sample_runtime and vals = sample_vals
          and dt = "''float32''" and kernelName = "''Add''" and h = sample_host
          and p = sample_profiler and lg = "Logger sample_runtime" and inputs = sample_inputs
          and f = sample_compute]
  note t3 = errors_reaching_caller[where rt = sample_runtime and vals = sample_vals
          and dt = "''float32''" and kernelName = "''Add''" and h = sample_host
          and p = failing_logger_profiler and lg = "Logger sample_runtime"
          and inputs = sample_inputs and f = sample_compute]
  have f0: "failing_compute 0 = Inl (Thrown ''kernel failed'')"
    by (simp add: failing_compute_def)
  have pt: "syncCalls (backendTimer plain_profiler) = Suc 0"
    using plain_profiler_timer by simp
  from t1 pt plain_profiler_timer(2) f0
  have 1: "profileKernel plain_profiler ''Add'' sample_inputs failing_compute sample_host =
     Inl (Thrown ''kernel failed'', [TimeCalled, ComputeCalled])"
    by blast
  have 2: "snd (reads rejected_run ! 0) = Rejected (Thrown ''read failed'')"
    and l2: "0 < length (reads rejected_run)"
    by (simp_all add: rejected_run_state)
  from t2 sample_call l2 2 have 3: "Thrown ''read failed'' \<in> set (unhandled rejected_run)"
    unfolding rejected_run_def by blast
  have 4: "reads timer_rejected_run ! 0 = (sample_output, Fulfilled sample_vals)"
    and l4: "0 < length (reads timer_rejected_run)"
    by (simp_all add: timer_rejected_run_state)
  from t2 sample_call l4 4 timer_rejected_run_state(2,3)
  have 5: "Thrown ''timer failed'' \<in> set (unhandled timer_rejected_run)"
    unfolding timer_rejected_run_def by blast
  have 6: "reads logger_failed_run ! 0 = (sample_output, Fulfilled sample_vals)"
    and l6: "0 < length (reads logger_failed_run)"
    by (simp_all add: logger_failed_run_state)
  have th: "\<forall>hc. fst (logger failing_logger_profiler ''Add'' sample_output sample_vals
                       (kernelMs sample_timing) sample_inputs
                       (Some (case getExtraProfileInfo sample_timing of None \<Rightarrow> []
                              | Some info \<Rightarrow> info)) hc) = Some (Thrown ''logger failed'')"
    by (simp add: failing_logger_profiler_def Profiler_new_def failing_logger_def)
  from t3 failing_logger_call l6 6 logger_failed_run_state(2,3) th
  have 7: "Thrown ''logger failed'' \<in> set (unhandled logger_failed_run)"
    unfolding logger_failed_run_def by blast
  have 8: "unhandled sample_run = []" by code_simp
  from 1 2 3 4 5 6 7 8 timer_rejected_run_state(2,3) logger_failed_run_state(2,3)
  show ?thesis by (intro conjI)
qed

text \<open>A closure that throws: with a timer that is a plain function the caller gets the
  closure's exception; with an async timer the caller gets the TypeError of reading
  \<open>dataId\<close> of the undefined result.\<close>

theorem compute_error_reaches_caller:
  "profileKernel plain_profiler ''Add'' sample_inputs failing_compute sample_host =
     Inl (Thrown ''kernel failed'', [TimeCalled, ComputeCalled])
   \<and> profileKernel sample_profiler ''Add'' sample_inputs failing_compute sample_host =
     Inl (TypeError, [TimeCalled, ComputeCalled])"
  by code_simp

end
